theory Spec2Isabelle
  imports Main "HOL-Library.Word"
begin

section \<open>The message allocator of Robus (msg\_alloc.c)\<close>

text \<open>
  A shallow embedding of \<^verbatim>\<open>src/Robus/src/msg_alloc.c\<close>. The module owns one byte
  buffer, a reception cursor of three pointers into it, three bounded task stacks and
  a pointer to an externally owned statistics record. Every C function becomes a HOL
  function from the state before the call to the state after it.

  \<^item> Pointers are 32-bit words (the code compares them after a cast to
    \<^verbatim>\<open>uint32_t\<close>); \<^verbatim>\<open>NULL\<close> is the word 0. Stack counters are 16-bit words, the
    statistics are 8-bit words.
  \<^item> \<^verbatim>\<open>LUOS_ASSERT\<close> halts the node: a failed assertion is the fault \<open>AssertFailed\<close>.
    Dereferencing the null statistics pointer, a store outside one of the three task
    arrays and a division by zero are faults as well, because what the machine does
    afterwards is not determined by this file.
  \<^item> The bytes of the memory are a function of the address. A store through
    \<^verbatim>\<open>data_ptr\<close> and a \<^verbatim>\<open>memcpy\<close> write there wherever they point, inside the buffer or
    not: the code tests nothing, and neither does the model. The variables of the module
    and the statistics records are not part of these bytes.
  \<^item> A load from behind an array (the slide loops read the cell after the last one
    when a stack is full) yields the content of the memory that follows the array.
    That content is a field of the state that no function writes.
  \<^item> Interrupt masking (\<^verbatim>\<open>LuosHAL_SetIrqState\<close>) has no effect on a sequential run and
    is left out.
  \<^item> The constants of \<^verbatim>\<open>config.h\<close> and the size of \<^verbatim>\<open>header_t\<close> are not part of the
    sources at hand; they are the fields of a configuration record.
\<close>

type_synonym addr = "32 word"
type_synonym u8 = "8 word"
type_synonym u16 = "16 word"

datatype error_return_t = SUCCEED | FAILED

datatype fault = AssertFailed | NullPointer | OutOfBounds | DivByZero

record config =
  buffer :: addr              \<comment> \<open>the address of \<^verbatim>\<open>msg_buffer[0]\<close>\<close>
  MSG_BUFFER_SIZE :: nat
  MAX_MSG_NB :: nat
  MAX_DATA_MSG_SIZE :: nat
  sizeof_header :: nat        \<comment> \<open>\<^verbatim>\<open>sizeof(header_t)\<close>\<close>
  offset_cmd :: nat           \<comment> \<open>offset of \<^verbatim>\<open>header.cmd\<close> in a message\<close>
  header_source :: "(addr \<Rightarrow> u8) \<Rightarrow> addr \<Rightarrow> u16"  \<comment> \<open>reads the bit field \<^verbatim>\<open>header.source\<close>\<close>
  header_size :: "(addr \<Rightarrow> u8) \<Rightarrow> addr \<Rightarrow> u16"    \<comment> \<open>reads \<^verbatim>\<open>header.size\<close>\<close>

record memory_stats =
  msg_stack_ratio :: u8
  luos_stack_ratio :: u8
  msg_drop_number :: u8

record luos_task =
  msg_pt :: addr
  ll_container_pt :: addr

record tx_task =
  data_pt :: addr
  size_tx :: u16              \<comment> \<open>the field \<^verbatim>\<open>size\<close> of \<^verbatim>\<open>tx_task_t\<close>\<close>

record state =
  mem_stat :: addr                         \<comment> \<open>pointer to the statistics record\<close>
  stats :: "addr \<Rightarrow> memory_stats"          \<comment> \<open>the statistics records, by address\<close>
  mem :: "addr \<Rightarrow> u8"                      \<comment> \<open>the bytes of the memory, by address\<close>
  current_msg :: addr
  data_ptr :: addr
  data_end_estimation :: addr
  copy_task_pointer :: addr
  msg_tasks :: "addr list"
  msg_tasks_behind :: "nat \<Rightarrow> addr"       \<comment> \<open>the memory after \<^verbatim>\<open>msg_tasks\<close>\<close>
  msg_tasks_stack_id :: u16
  used_msg :: addr
  luos_tasks :: "luos_task list"
  luos_tasks_behind :: "nat \<Rightarrow> luos_task" \<comment> \<open>the memory after \<^verbatim>\<open>luos_tasks\<close>\<close>
  luos_tasks_stack_id :: u16
  tx_tasks :: "tx_task list"
  tx_tasks_behind :: "nat \<Rightarrow> tx_task"     \<comment> \<open>the memory after \<^verbatim>\<open>tx_tasks\<close>\<close>
  tx_tasks_stack_id :: u16

subsection \<open>Faults, array cells and the buffer\<close>

text \<open>Sequencing of two steps, the first of which can end in a fault.\<close>

definition and_then :: "fault + 'a \<Rightarrow> ('a \<Rightarrow> fault + 'b) \<Rightarrow> fault + 'b" where
  "and_then m f = (case m of Inl e \<Rightarrow> Inl e | Inr x \<Rightarrow> f x)"

text \<open>\<^verbatim>\<open>a[i]\<close> as a load: inside the array, or from the memory behind it.\<close>

definition rd :: "'a list \<Rightarrow> (nat \<Rightarrow> 'a) \<Rightarrow> nat \<Rightarrow> 'a" where
  "rd xs behind i = (if i < length xs then xs ! i else behind (i - length xs))"

text \<open>\<^verbatim>\<open>a[i] = v\<close> as a store: a fault outside the array.\<close>

definition wr :: "'a list \<Rightarrow> nat \<Rightarrow> 'a \<Rightarrow> fault + 'a list" where
  "wr xs i v = (if i < length xs then Inr (xs[i := v]) else Inl OutOfBounds)"

text \<open>\<^verbatim>\<open>&msg_buffer[MSG_BUFFER_SIZE - 1]\<close> and \<^verbatim>\<open>&msg_buffer[MSG_BUFFER_SIZE]\<close>.\<close>

definition buffer_last :: "config \<Rightarrow> addr" where
  "buffer_last c = buffer c + of_nat (MSG_BUFFER_SIZE c) - 1"

definition buffer_end :: "config \<Rightarrow> addr" where
  "buffer_end c = buffer c + of_nat (MSG_BUFFER_SIZE c)"

text \<open>The memory after \<open>n\<close> bytes \<open>f 0, \<dots>, f (n - 1)\<close> have been stored from \<open>dst\<close> on.\<close>

definition write_bytes :: "(addr \<Rightarrow> u8) \<Rightarrow> addr \<Rightarrow> (nat \<Rightarrow> u8) \<Rightarrow> nat \<Rightarrow> addr \<Rightarrow> u8" where
  "write_bytes m dst f n = (\<lambda>a. if unat (a - dst) < n then f (unat (a - dst)) else m a)"

text \<open>
  \<^verbatim>\<open>memcpy(dst, src, n)\<close>: the \<open>n\<close> bytes from \<open>dst\<close> on become the bytes that stood from
  \<open>src\<close> on before the call, and the call always returns. Where the two regions overlap
  (\<^verbatim>\<open>MsgAlloc_SetTxTask\<close> moves a frame in reception by less than its length) the C
  standard does not say which bytes arrive; the model takes those of \<^verbatim>\<open>memmove\<close>.
\<close>

definition memcpy :: "(addr \<Rightarrow> u8) \<Rightarrow> addr \<Rightarrow> addr \<Rightarrow> nat \<Rightarrow> addr \<Rightarrow> u8" where
  "memcpy m dst src n = write_bytes m dst (\<lambda>i. m (src + of_nat i)) n"

text \<open>
  The block \<^verbatim>\<open>if (mem_stat->msg_drop_number < 0xFF) mem_stat->msg_drop_number++;\<close>
  that follows every drop.
\<close>

definition count_drop :: "state \<Rightarrow> fault + state" where
  "count_drop s =
     (if mem_stat s = 0 then Inl NullPointer
      else let m = stats s (mem_stat s) in
        if msg_drop_number m < 0xFF
        then Inr (s\<lparr>stats := (stats s)(mem_stat s := m\<lparr>msg_drop_number := msg_drop_number m + 1\<rparr>)\<rparr>)
        else Inr s)"

text \<open>
  The slide loop \<^verbatim>\<open>for (rm = i; rm < n; rm++) a[rm] = a[rm + 1];\<close> shared by the three
  stacks. The counter is below the 16-bit \<open>n\<close>, so it never wraps.
\<close>

function slide_left :: "'a list \<Rightarrow> (nat \<Rightarrow> 'a) \<Rightarrow> nat \<Rightarrow> nat \<Rightarrow> fault + 'a list" where
  "slide_left xs behind rm n =
     (if rm < n
      then (if rm < length xs
            then slide_left (xs[rm := rd xs behind (rm + 1)]) behind (rm + 1) n
            else Inl OutOfBounds)
      else Inr xs)"
  by pat_completeness auto
termination
  by (relation "measure (\<lambda>(xs, behind, rm, n). n - rm)") auto

declare slide_left.simps [simp del]

subsection \<open>Generic functions\<close>

definition MsgAlloc_Init :: "config \<Rightarrow> addr \<Rightarrow> state \<Rightarrow> state" where
  "MsgAlloc_Init c memory_stats s =
     (let s1 = s\<lparr>current_msg := buffer c,
                 data_ptr := buffer c,
                 data_end_estimation := buffer c + of_nat (sizeof_header c) + 2,
                 msg_tasks_stack_id := 0,
                 msg_tasks := replicate (MAX_MSG_NB c) 0,
                 luos_tasks_stack_id := 0,
                 luos_tasks := replicate (MAX_MSG_NB c) \<lparr>msg_pt = 0, ll_container_pt = 0\<rparr>,
                 copy_task_pointer := 0,
                 used_msg := 0\<rparr>
      in if memory_stats \<noteq> 0 then s1\<lparr>mem_stat := memory_stats\<rparr> else s1)"

definition MsgAlloc_loop :: "config \<Rightarrow> state \<Rightarrow> fault + state" where
  "MsgAlloc_loop c s =
     (if MAX_MSG_NB c = 0 then Inl DivByZero
      else if mem_stat s = 0 then Inl NullPointer
      else
        let stat = (of_nat ((unat (msg_tasks_stack_id s) * 100) div MAX_MSG_NB c) :: u8);
            m = stats s (mem_stat s);
            s1 = (if stat > msg_stack_ratio m
                  then s\<lparr>stats := (stats s)(mem_stat s := m\<lparr>msg_stack_ratio := stat\<rparr>)\<rparr>
                  else s)
        in if copy_task_pointer s1 \<noteq> 0
           then Inr (s1\<lparr>mem := memcpy (mem s1) (buffer c) (copy_task_pointer s1) (sizeof_header c),
                       copy_task_pointer := 0\<rparr>)
           else Inr s1)"

subsection \<open>Task stacks: the slot clearing functions\<close>

definition MsgAlloc_ClearMsgTask :: "config \<Rightarrow> state \<Rightarrow> fault + state" where
  "MsgAlloc_ClearMsgTask c s =
     (if \<not> (unat (msg_tasks_stack_id s) \<le> MAX_MSG_NB c \<and> msg_tasks_stack_id s > 0)
      then Inl AssertFailed
      else and_then (slide_left (msg_tasks s) (msg_tasks_behind s) 0 (unat (msg_tasks_stack_id s)))
        (\<lambda>xs. let n = msg_tasks_stack_id s - 1 in
           and_then (wr xs (unat n) 0)
             (\<lambda>ys. Inr (s\<lparr>msg_tasks := ys, msg_tasks_stack_id := n\<rparr>))))"

definition MsgAlloc_ClearLuosTask :: "config \<Rightarrow> u16 \<Rightarrow> state \<Rightarrow> fault + state" where
  "MsgAlloc_ClearLuosTask c luos_task_id s =
     (if \<not> (luos_task_id \<le> luos_tasks_stack_id s \<or> unat (luos_tasks_stack_id s) \<le> MAX_MSG_NB c)
      then Inl AssertFailed
      else and_then (slide_left (luos_tasks s) (luos_tasks_behind s)
                       (unat luos_task_id) (unat (luos_tasks_stack_id s)))
        (\<lambda>xs. Inr (s\<lparr>luos_tasks := xs,
                      luos_tasks_stack_id :=
                        (if luos_tasks_stack_id s \<noteq> 0 then luos_tasks_stack_id s - 1
                         else luos_tasks_stack_id s)\<rparr>)))"


lemma and_then_cong [fundef_cong]:
  "m = m' \<Longrightarrow> (\<And>x. m' = Inr x \<Longrightarrow> f x = f' x) \<Longrightarrow> and_then m f = and_then m' f'"
  by (simp add: and_then_def split: sum.splits)

lemma ClearLuosTask_stack_id:
  "MsgAlloc_ClearLuosTask c i s = Inr s' \<Longrightarrow>
     luos_tasks_stack_id s' =
       (if luos_tasks_stack_id s \<noteq> 0 then luos_tasks_stack_id s - 1 else luos_tasks_stack_id s)"
  by (auto simp: MsgAlloc_ClearLuosTask_def and_then_def split: if_splits sum.splits)

lemma ClearMsgTask_stack_id:
  "MsgAlloc_ClearMsgTask c s = Inr s' \<Longrightarrow>
     msg_tasks_stack_id s \<noteq> 0 \<and> msg_tasks_stack_id s' = msg_tasks_stack_id s - 1"
  by (auto simp: MsgAlloc_ClearMsgTask_def and_then_def Let_def split: if_splits sum.splits)

lemma count_drop_stack_ids:
  "count_drop s = Inr s' \<Longrightarrow>
     luos_tasks_stack_id s' = luos_tasks_stack_id s \<and> msg_tasks_stack_id s' = msg_tasks_stack_id s"
  by (auto simp: count_drop_def Let_def split: if_splits)

lemma unat_pred_less: "(w :: u16) \<noteq> 0 \<Longrightarrow> unat (w - 1) < unat w"
  by (simp add: unat_minus_one unat_gt_0)

subsection \<open>The overlap reclaimer\<close>

definition MsgAlloc_DoWeHaveSpace :: "config \<Rightarrow> addr \<Rightarrow> error_return_t" where
  "MsgAlloc_DoWeHaveSpace c to = (if to > buffer_last c then FAILED else SUCCEED)"

text \<open>The test \<^verbatim>\<open>p >= from && p <= to\<close> on pointers cast to \<^verbatim>\<open>uint32_t\<close>.\<close>

definition in_space :: "addr \<Rightarrow> addr \<Rightarrow> addr \<Rightarrow> bool" where
  "in_space from to p \<longleftrightarrow> p \<ge> from \<and> p \<le> to"

text \<open>The first \<^verbatim>\<open>while\<close> loop of \<^verbatim>\<open>MsgAlloc_ClearMsgSpace\<close>, over \<^verbatim>\<open>luos_tasks\<close>.\<close>

function ClearMsgSpace_luos :: "config \<Rightarrow> addr \<Rightarrow> addr \<Rightarrow> state \<Rightarrow> fault + state" where
  "ClearMsgSpace_luos c from to s =
     (if in_space from to (msg_pt (rd (luos_tasks s) (luos_tasks_behind s) 0))
         \<and> luos_tasks_stack_id s > 0
      then and_then (MsgAlloc_ClearLuosTask c 0 s)
             (\<lambda>s1. and_then (count_drop s1) (\<lambda>s2. ClearMsgSpace_luos c from to s2))
      else Inr s)"
  by pat_completeness auto
termination
proof (relation "measure (\<lambda>(c, from, to, s). unat (luos_tasks_stack_id s))", goal_cases)
  case 1
  show ?case by simp
next
  case (2 c lo hi s s1 s2)
  then have "luos_tasks_stack_id s2 = luos_tasks_stack_id s - 1" and "luos_tasks_stack_id s \<noteq> 0"
    using ClearLuosTask_stack_id [of c 0 s s1] count_drop_stack_ids [of s1 s2] by auto
  then show ?case by (simp add: unat_pred_less)
qed

declare ClearMsgSpace_luos.simps [simp del]

text \<open>The second \<^verbatim>\<open>while\<close> loop, over \<^verbatim>\<open>msg_tasks\<close>.\<close>

function ClearMsgSpace_msg :: "config \<Rightarrow> addr \<Rightarrow> addr \<Rightarrow> state \<Rightarrow> fault + state" where
  "ClearMsgSpace_msg c from to s =
     (if in_space from to (rd (msg_tasks s) (msg_tasks_behind s) 0)
         \<and> msg_tasks_stack_id s > 0
      then and_then (MsgAlloc_ClearMsgTask c s)
             (\<lambda>s1. and_then (count_drop s1) (\<lambda>s2. ClearMsgSpace_msg c from to s2))
      else Inr s)"
  by pat_completeness auto
termination
proof (relation "measure (\<lambda>(c, from, to, s). unat (msg_tasks_stack_id s))", goal_cases)
  case 1
  show ?case by simp
next
  case (2 c lo hi s s1 s2)
  then have "msg_tasks_stack_id s2 = msg_tasks_stack_id s - 1" and "msg_tasks_stack_id s \<noteq> 0"
    using ClearMsgTask_stack_id [of c s s1] count_drop_stack_ids [of s1 s2] by auto
  then show ?case by (simp add: unat_pred_less)
qed

declare ClearMsgSpace_msg.simps [simp del]

definition MsgAlloc_ClearMsgSpace :: "config \<Rightarrow> addr \<Rightarrow> addr \<Rightarrow> state \<Rightarrow> fault + (error_return_t \<times> state)" where
  "MsgAlloc_ClearMsgSpace c from to s =
     (if to > buffer_last c then Inr (FAILED, s)
      else and_then (if in_space from to (used_msg s)
                     then count_drop (s\<lparr>used_msg := 0\<rparr>) else Inr s)
        (\<lambda>s1. and_then (ClearMsgSpace_luos c from to s1)
          (\<lambda>s2. and_then (ClearMsgSpace_msg c from to s2)
            (\<lambda>s3. Inr (SUCCEED, s3)))))"


subsection \<open>Message buffering\<close>

definition MsgAlloc_InvalidMsg :: "config \<Rightarrow> state \<Rightarrow> fault + state" where
  "MsgAlloc_InvalidMsg c s =
     and_then (MsgAlloc_ClearMsgSpace c (current_msg s) (data_ptr s) s)
       (\<lambda>(r, s1).
          let s2 = s1\<lparr>data_ptr := current_msg s1,
                      data_end_estimation := current_msg s1 + of_nat (sizeof_header c) + 2\<rparr>
          in Inr (if current_msg s2 = buffer c then s2\<lparr>copy_task_pointer := 0\<rparr> else s2))"

text \<open>
  \<^verbatim>\<open>&current_msg->data[data_size + 2]\<close>: the payload follows the header, and the index
  is computed in \<^verbatim>\<open>int\<close>, so it does not wrap at 16 bits.
\<close>

definition frame_end :: "config \<Rightarrow> addr \<Rightarrow> u16 \<Rightarrow> addr" where
  "frame_end c msg data_size = msg + of_nat (sizeof_header c) + ucast data_size + 2"

definition MsgAlloc_ValidHeader :: "config \<Rightarrow> u8 \<Rightarrow> u16 \<Rightarrow> state \<Rightarrow> fault + state" where
  "MsgAlloc_ValidHeader c valid data_size s =
     (if valid = 1
      then
        let s1 = (if MsgAlloc_DoWeHaveSpace c (frame_end c (current_msg s) data_size) = FAILED
                  then s\<lparr>copy_task_pointer := current_msg s,
                         current_msg := buffer c,
                         data_ptr := buffer c + of_nat (sizeof_header c)\<rparr>
                  else s);
            s2 = s1\<lparr>data_end_estimation := frame_end c (current_msg s1) data_size\<rparr>
        in if used_msg s2 \<ge> current_msg s2 \<and> used_msg s2 \<le> frame_end c (current_msg s2) data_size
           then count_drop (s2\<lparr>used_msg := 0\<rparr>)
           else Inr s2
      else Inr (s\<lparr>data_ptr := current_msg s\<rparr>))"

text \<open>The cursor part of \<^verbatim>\<open>MsgAlloc_EndMsg\<close>, from \<^verbatim>\<open>data_ptr -= 2\<close> on.\<close>

definition next_msg :: "config \<Rightarrow> state \<Rightarrow> state" where
  "next_msg c s =
     (let d = data_ptr s - 2;
          d' = (if MsgAlloc_DoWeHaveSpace c (d + of_nat (sizeof_header c) + 2) = FAILED
                then buffer c
                else if unat (mem s d) mod 2 \<noteq> 1 then d + 1 else d)
      in s\<lparr>data_ptr := d', current_msg := d',
            data_end_estimation := d' + of_nat (sizeof_header c) + 2\<rparr>)"

definition MsgAlloc_EndMsg :: "config \<Rightarrow> state \<Rightarrow> fault + state" where
  "MsgAlloc_EndMsg c s =
     and_then (MsgAlloc_ClearMsgSpace c (current_msg s) (data_ptr s) s)
       (\<lambda>(r, s1).
     and_then (if unat (msg_tasks_stack_id s1) = MAX_MSG_NB c
               then and_then (MsgAlloc_ClearMsgTask c s1) count_drop
               else Inr s1)
       (\<lambda>s2.
     if rd (msg_tasks s2) (msg_tasks_behind s2) (unat (msg_tasks_stack_id s2)) \<noteq> 0
     then Inl AssertFailed
     else if \<not> (\<not> msg_tasks_stack_id s2 > 0
                 \<or> (rd (msg_tasks s2) (msg_tasks_behind s2) 0 \<ge> buffer c
                    \<and> rd (msg_tasks s2) (msg_tasks_behind s2) 0 < buffer_end c))
     then Inl AssertFailed
     else
     and_then (wr (msg_tasks s2) (unat (msg_tasks_stack_id s2)) (current_msg s2))
       (\<lambda>xs.
          let s3 = next_msg c (s2\<lparr>msg_tasks := xs, msg_tasks_stack_id := msg_tasks_stack_id s2 + 1\<rparr>)
          in and_then (MsgAlloc_ClearMsgSpace c (current_msg s3)
                         (current_msg s3 + of_nat (sizeof_header c) + 2) s3)
               (\<lambda>(r, s4). Inr s4))))"

definition MsgAlloc_SetData :: "u8 \<Rightarrow> state \<Rightarrow> state" where
  "MsgAlloc_SetData data s = s\<lparr>mem := (mem s)(data_ptr s := data), data_ptr := data_ptr s + 1\<rparr>"

text \<open>
  \<^verbatim>\<open>MsgAlloc_SetMessage\<close>. The argument \<open>msg\<close> is the address of the message to copy,
  anywhere in memory. First the local \<^verbatim>\<open>data_size\<close>, a \<^verbatim>\<open>uint16_t\<close>.
\<close>

definition SetMessage_data_size :: "config \<Rightarrow> addr \<Rightarrow> state \<Rightarrow> u16" where
  "SetMessage_data_size c msg s =
     (if unat (header_size c (mem s) msg) > MAX_DATA_MSG_SIZE c
      then of_nat (MAX_DATA_MSG_SIZE c + sizeof_header c)
      else of_nat (unat (header_size c (mem s) msg) + sizeof_header c))"

text \<open>Then the move of \<^verbatim>\<open>current_msg\<close> to the start of the buffer when the message does not fit.\<close>

definition SetMessage_wrap :: "config \<Rightarrow> u16 \<Rightarrow> state \<Rightarrow> state" where
  "SetMessage_wrap c data_size s =
     (if MsgAlloc_DoWeHaveSpace c (current_msg s + ucast data_size) = FAILED
      then s\<lparr>current_msg := buffer c\<rparr> else s)"

definition MsgAlloc_SetMessage :: "config \<Rightarrow> addr \<Rightarrow> state \<Rightarrow> fault + state" where
  "MsgAlloc_SetMessage c msg s =
     (let data_size = SetMessage_data_size c msg s;
          s1 = SetMessage_wrap c data_size s
      in and_then (MsgAlloc_ClearMsgSpace c (current_msg s1) (current_msg s1 + ucast data_size) s1)
           (\<lambda>(r, s2).
              let cpy_msg = current_msg s2;
                  s3 = s2\<lparr>data_ptr := current_msg s2 + ucast data_size + 2\<rparr>
              in and_then (MsgAlloc_EndMsg c s3)
                   (\<lambda>s4. Inr (s4\<lparr>mem := memcpy (mem s4) cpy_msg msg (unat data_size)\<rparr>))))"

definition MsgAlloc_GetCurrentMsg :: "state \<Rightarrow> addr" where
  "MsgAlloc_GetCurrentMsg s = current_msg s"

definition MsgAlloc_IsEmpty :: "config \<Rightarrow> state \<Rightarrow> error_return_t" where
  "MsgAlloc_IsEmpty c s = (if data_ptr s = buffer c then SUCCEED else FAILED)"

subsection \<open>The interpretation stack and the delivery stack\<close>

text \<open>
  An out parameter \<^verbatim>\<open>*p\<close> is passed in with the value it holds before the call and
  returned with the value it holds after it.
\<close>

definition MsgAlloc_PullMsgToInterpret :: "config \<Rightarrow> addr \<Rightarrow> state \<Rightarrow> fault + (error_return_t \<times> addr \<times> state)" where
  "MsgAlloc_PullMsgToInterpret c returned_msg s =
     (if msg_tasks_stack_id s > 0
      then let r = rd (msg_tasks s) (msg_tasks_behind s) 0 in
        if \<not> (r \<ge> buffer c \<and> r < buffer_end c) then Inl AssertFailed
        else and_then (MsgAlloc_ClearMsgTask c s) (\<lambda>s1. Inr (SUCCEED, r, s1))
      else Inr (FAILED, returned_msg, s))"

definition MsgAlloc_UsedMsgEnd :: "state \<Rightarrow> state" where
  "MsgAlloc_UsedMsgEnd s = s\<lparr>used_msg := 0\<rparr>"

definition MsgAlloc_LuosTaskAlloc :: "config \<Rightarrow> addr \<Rightarrow> addr \<Rightarrow> state \<Rightarrow> fault + state" where
  "MsgAlloc_LuosTaskAlloc c container_concerned_by_current_msg concerned_msg s =
     and_then (if unat (luos_tasks_stack_id s) = MAX_MSG_NB c
               then MsgAlloc_ClearLuosTask c 0 s else Inr s)
       (\<lambda>s1.
     and_then (wr (luos_tasks s1) (unat (luos_tasks_stack_id s1))
                 \<lparr>msg_pt = concerned_msg, ll_container_pt = container_concerned_by_current_msg\<rparr>)
       (\<lambda>xs.
          let s2 = s1\<lparr>luos_tasks := xs, luos_tasks_stack_id := luos_tasks_stack_id s1 + 1\<rparr> in
          if MAX_MSG_NB c = 0 then Inl DivByZero
          else if mem_stat s2 = 0 then Inl NullPointer
          else
            let stat = (of_nat ((unat (luos_tasks_stack_id s2) * 100) div MAX_MSG_NB c) :: u8);
                m = stats s2 (mem_stat s2)
            in Inr (if stat > luos_stack_ratio m
                    then s2\<lparr>stats := (stats s2)(mem_stat s2 := m\<lparr>luos_stack_ratio := stat\<rparr>)\<rparr>
                    else s2)))"

text \<open>The \<^verbatim>\<open>for\<close> loop of \<^verbatim>\<open>MsgAlloc_PullMsg\<close>, from index \<open>i\<close> on.\<close>

function PullMsg_from :: "config \<Rightarrow> addr \<Rightarrow> addr \<Rightarrow> nat \<Rightarrow> state \<Rightarrow> fault + (error_return_t \<times> addr \<times> state)" where
  "PullMsg_from c target_module returned_msg i s =
     (if i < unat (luos_tasks_stack_id s)
      then (if ll_container_pt (rd (luos_tasks s) (luos_tasks_behind s) i) = target_module
            then let r = msg_pt (rd (luos_tasks s) (luos_tasks_behind s) i) in
              and_then (MsgAlloc_ClearLuosTask c (of_nat i) (s\<lparr>used_msg := r\<rparr>))
                (\<lambda>s1. Inr (SUCCEED, r, s1))
            else PullMsg_from c target_module returned_msg (i + 1) s)
      else Inr (FAILED, returned_msg, s))"
  by pat_completeness auto
termination
  by (relation "measure (\<lambda>(c, t, r, i, s). unat (luos_tasks_stack_id s) - i)") auto

declare PullMsg_from.simps [simp del]

definition MsgAlloc_PullMsg :: "config \<Rightarrow> addr \<Rightarrow> addr \<Rightarrow> state \<Rightarrow> fault + (error_return_t \<times> addr \<times> state)" where
  "MsgAlloc_PullMsg c target_module returned_msg s = PullMsg_from c target_module returned_msg 0 s"

definition MsgAlloc_PullMsgFromLuosTask :: "config \<Rightarrow> u16 \<Rightarrow> addr \<Rightarrow> state \<Rightarrow> fault + (error_return_t \<times> addr \<times> state)" where
  "MsgAlloc_PullMsgFromLuosTask c luos_task_id returned_msg s =
     (if luos_task_id < luos_tasks_stack_id s
      then let r = msg_pt (rd (luos_tasks s) (luos_tasks_behind s) (unat luos_task_id)) in
        and_then (MsgAlloc_ClearLuosTask c luos_task_id (s\<lparr>used_msg := r\<rparr>))
          (\<lambda>s1. Inr (SUCCEED, r, s1))
      else Inr (FAILED, returned_msg, s))"

definition MsgAlloc_LookAtLuosTask :: "u16 \<Rightarrow> addr \<Rightarrow> state \<Rightarrow> error_return_t \<times> addr \<times> state" where
  "MsgAlloc_LookAtLuosTask luos_task_id allocated_module s =
     (if luos_task_id < luos_tasks_stack_id s
      then (SUCCEED, ll_container_pt (rd (luos_tasks s) (luos_tasks_behind s) (unat luos_task_id)), s)
      else (FAILED, allocated_module, s))"

definition MsgAlloc_GetLuosTaskCmd :: "config \<Rightarrow> u16 \<Rightarrow> u8 \<Rightarrow> state \<Rightarrow> error_return_t \<times> u8 \<times> state" where
  "MsgAlloc_GetLuosTaskCmd c luos_task_id cmd s =
     (if luos_task_id < luos_tasks_stack_id s
      then (SUCCEED, mem s (msg_pt (rd (luos_tasks s) (luos_tasks_behind s) (unat luos_task_id))
                             + of_nat (offset_cmd c)), s)
      else (FAILED, cmd, s))"

definition MsgAlloc_GetLuosTaskSourceId :: "config \<Rightarrow> u16 \<Rightarrow> u16 \<Rightarrow> state \<Rightarrow> error_return_t \<times> u16 \<times> state" where
  "MsgAlloc_GetLuosTaskSourceId c luos_task_id source_id s =
     (if luos_task_id < luos_tasks_stack_id s
      then (SUCCEED, header_source c (mem s)
                       (msg_pt (rd (luos_tasks s) (luos_tasks_behind s) (unat luos_task_id))), s)
      else (FAILED, source_id, s))"

definition MsgAlloc_GetLuosTaskSize :: "config \<Rightarrow> u16 \<Rightarrow> u16 \<Rightarrow> state \<Rightarrow> error_return_t \<times> u16 \<times> state" where
  "MsgAlloc_GetLuosTaskSize c luos_task_id sz s =
     (if luos_task_id < luos_tasks_stack_id s
      then (SUCCEED, header_size c (mem s)
                       (msg_pt (rd (luos_tasks s) (luos_tasks_behind s) (unat luos_task_id))), s)
      else (FAILED, sz, s))"

definition MsgAlloc_LuosTasksNbr :: "state \<Rightarrow> u16" where
  "MsgAlloc_LuosTasksNbr s = luos_tasks_stack_id s"

text \<open>The \<^verbatim>\<open>while\<close> loop of \<^verbatim>\<open>MsgAlloc_ClearMsgFromLuosTasks\<close>, from index \<open>id\<close> on.\<close>

function ClearMsgFromLuosTasks_from :: "config \<Rightarrow> addr \<Rightarrow> nat \<Rightarrow> state \<Rightarrow> fault + state" where
  "ClearMsgFromLuosTasks_from c msg i s =
     (if i < unat (luos_tasks_stack_id s)
      then (if msg_pt (rd (luos_tasks s) (luos_tasks_behind s) i) = msg
            then and_then (MsgAlloc_ClearLuosTask c (of_nat i) s)
                   (\<lambda>s1. ClearMsgFromLuosTasks_from c msg i s1)
            else ClearMsgFromLuosTasks_from c msg (i + 1) s)
      else Inr s)"
  by pat_completeness auto
termination
proof (relation "measure (\<lambda>(c, msg, i, s). unat (luos_tasks_stack_id s) - i)", goal_cases)
  case 1
  show ?case by simp
next
  case (2 c msg i s s1)
  then have "luos_tasks_stack_id s \<noteq> 0" by auto
  with 2 have "luos_tasks_stack_id s1 = luos_tasks_stack_id s - 1"
    using ClearLuosTask_stack_id [of c "of_nat i" s s1] by simp
  with 2 \<open>luos_tasks_stack_id s \<noteq> 0\<close> show ?case
    using unat_pred_less [of "luos_tasks_stack_id s"] by simp
next
  case (3 c msg i s)
  then show ?case by simp
qed

declare ClearMsgFromLuosTasks_from.simps [simp del]

definition MsgAlloc_ClearMsgFromLuosTasks :: "config \<Rightarrow> addr \<Rightarrow> state \<Rightarrow> fault + state" where
  "MsgAlloc_ClearMsgFromLuosTasks c msg s = ClearMsgFromLuosTasks_from c msg 0 s"


subsection \<open>The transmit stack\<close>

definition MsgAlloc_PullMsgFromTxTask :: "config \<Rightarrow> state \<Rightarrow> fault + state" where
  "MsgAlloc_PullMsgFromTxTask c s =
     (if \<not> (tx_tasks_stack_id s > 0 \<and> unat (tx_tasks_stack_id s) < MAX_MSG_NB c)
      then Inl AssertFailed
      else and_then (slide_left (tx_tasks s) (tx_tasks_behind s) 0 (unat (tx_tasks_stack_id s)))
        (\<lambda>xs. let n = tx_tasks_stack_id s - 1 in
           and_then (wr xs (unat n) \<lparr>data_pt = 0, size_tx = 0\<rparr>)
             (\<lambda>ys. Inr (s\<lparr>tx_tasks := ys, tx_tasks_stack_id := n\<rparr>))))"

text \<open>
  \<^verbatim>\<open>MsgAlloc_SetTxTask(data, size)\<close>; the argument \<open>sz\<close> is the parameter \<^verbatim>\<open>size\<close>. First
  the two \<^verbatim>\<open>uint16_t\<close> locals that record the progress of the reception.
\<close>

definition progression_size :: "state \<Rightarrow> u16" where
  "progression_size s = ucast (data_ptr s - current_msg s)"

definition estimated_size :: "state \<Rightarrow> u16" where
  "estimated_size s = ucast (data_end_estimation s - current_msg s)"

text \<open>
  The branch taken when the frame to send does not fit behind \<^verbatim>\<open>current_msg\<close>: it goes to
  the start of the buffer and the frame in reception follows it. The result carries
  \<^verbatim>\<open>tx_msg\<close>.
\<close>

definition SetTxTask_at_start :: "config \<Rightarrow> u16 \<Rightarrow> state \<Rightarrow> fault + (addr \<times> state)" where
  "SetTxTask_at_start c sz s =
     (let tx_msg = buffer c;
          cm = buffer c + ucast sz;
          s1 = s\<lparr>current_msg := cm,
                 data_ptr := cm + ucast (progression_size s),
                 data_end_estimation := cm + ucast (estimated_size s)\<rparr>
      in and_then (MsgAlloc_ClearMsgSpace c tx_msg (data_end_estimation s1) s1)
           (\<lambda>(r, s2). Inr (tx_msg, s2)))"

text \<open>
  The frame to send fits at \<^verbatim>\<open>current_msg\<close> but the frame in reception does not fit
  behind it: the reception moves to the start of the buffer.
\<close>

definition SetTxTask_rx_to_start :: "config \<Rightarrow> u16 \<Rightarrow> state \<Rightarrow> fault + state" where
  "SetTxTask_rx_to_start c sz s =
     (let tx_msg = current_msg s in
      and_then (MsgAlloc_ClearMsgSpace c tx_msg (tx_msg + ucast sz) s)
        (\<lambda>(r, s1).
           let s2 = s1\<lparr>current_msg := buffer c,
                       data_end_estimation := buffer c + ucast (estimated_size s)\<rparr>
           in and_then (MsgAlloc_ClearMsgSpace c (current_msg s2) (data_end_estimation s2) s2)
                (\<lambda>(r, s3). Inr s3)))"

text \<open>Both fit: the reception moves right by \<^verbatim>\<open>size\<close>.\<close>

definition SetTxTask_rx_shifted :: "config \<Rightarrow> u16 \<Rightarrow> state \<Rightarrow> fault + state" where
  "SetTxTask_rx_shifted c sz s =
     (let tx_msg = current_msg s;
          cm = current_msg s + ucast sz;
          s1 = s\<lparr>current_msg := cm, data_end_estimation := cm + ucast (estimated_size s)\<rparr>
      in and_then (MsgAlloc_ClearMsgSpace c tx_msg (data_end_estimation s1) s1)
           (\<lambda>(r, s2). Inr s2))"

text \<open>The place \<^verbatim>\<open>tx_msg\<close> of the frame to send and the move of the reception cursor.\<close>

definition SetTxTask_place :: "config \<Rightarrow> u16 \<Rightarrow> state \<Rightarrow> fault + (addr \<times> state)" where
  "SetTxTask_place c sz s =
     (if MsgAlloc_DoWeHaveSpace c (current_msg s + ucast sz) = FAILED
      then SetTxTask_at_start c sz s
      else
        and_then
          (if MsgAlloc_DoWeHaveSpace c (current_msg s + ucast sz + ucast (estimated_size s)) = FAILED
           then SetTxTask_rx_to_start c sz s
           else SetTxTask_rx_shifted c sz s)
          (\<lambda>s3.
             let s4 = s3\<lparr>data_ptr := current_msg s3 + ucast (progression_size s)\<rparr>
             in if \<not> data_ptr s4 < buffer_end c then Inl AssertFailed
                else Inr (current_msg s, s4)))"

text \<open>
  The length \<^verbatim>\<open>size - 3\<close> of the last copy: the subtraction is done in \<^verbatim>\<open>int\<close> and
  the result converted to \<^verbatim>\<open>size_t\<close>, 32 bits wide.
\<close>

definition rest_length :: "u16 \<Rightarrow> nat" where
  "rest_length sz = (if 3 \<le> unat sz then unat sz - 3 else 2 ^ 32 + unat sz - 3)"

text \<open>The push of the new transmit task, with the eviction that follows it.\<close>

definition SetTxTask_push :: "config \<Rightarrow> addr \<Rightarrow> u16 \<Rightarrow> state \<Rightarrow> fault + state" where
  "SetTxTask_push c tx_msg sz s =
     and_then (wr (tx_tasks s) (unat (tx_tasks_stack_id s)) \<lparr>data_pt = tx_msg, size_tx = sz\<rparr>)
       (\<lambda>xs.
          let s1 = s\<lparr>tx_tasks := xs, tx_tasks_stack_id := tx_tasks_stack_id s + 1\<rparr>
          in if unat (tx_tasks_stack_id s1) = MAX_MSG_NB c
             then and_then (MsgAlloc_PullMsgFromTxTask c s1) count_drop
             else Inr s1)"

definition MsgAlloc_SetTxTask :: "config \<Rightarrow> addr \<Rightarrow> u16 \<Rightarrow> state \<Rightarrow> fault + state" where
  "MsgAlloc_SetTxTask c data sz s =
     (if \<not> (unat (tx_tasks_stack_id s) < MAX_MSG_NB c \<and> data > 0
             \<and> current_msg s < buffer_end c \<and> current_msg s \<ge> buffer c)
      then Inl AssertFailed
      else
        let rx_msg_bkp = current_msg s in
        and_then (SetTxTask_place c sz s)
          (\<lambda>(tx_msg, s5).
        let m1 = memcpy (mem s5) (current_msg s5) rx_msg_bkp (unat (progression_size s));
            m2 = memcpy m1 tx_msg data 3
        in
        and_then (SetTxTask_push c tx_msg sz (s5\<lparr>mem := m2\<rparr>))
          (\<lambda>s7. Inr (s7\<lparr>mem := memcpy (mem s7) (tx_msg + 3) (data + 3) (rest_length sz)\<rparr>))))"

definition MsgAlloc_GetTxTask :: "config \<Rightarrow> addr \<Rightarrow> u16 \<Rightarrow> state \<Rightarrow> fault + (error_return_t \<times> addr \<times> u16 \<times> state)" where
  "MsgAlloc_GetTxTask c data sz s =
     (if \<not> unat (tx_tasks_stack_id s) < MAX_MSG_NB c then Inl AssertFailed
      else if tx_tasks_stack_id s > 0
      then Inr (SUCCEED, data_pt (rd (tx_tasks s) (tx_tasks_behind s) 0),
                size_tx (rd (tx_tasks s) (tx_tasks_behind s) 0), s)
      else Inr (FAILED, data, sz, s))"

subsection \<open>Runs of the allocator\<close>

text \<open>
  The functions that other modules call, with their arguments. A call is observed at its
  boundary: \<open>exec\<close> maps the state before it to the state after it, or to the fault
  that stopped it; results and out parameters are dropped.
\<close>

datatype call =
    Init addr
  | Loop
  | InvalidMsg
  | ValidHeader u8 u16
  | EndMsg
  | SetData u8
  | SetMessage addr
  | GetCurrentMsg
  | IsEmpty
  | PullMsgToInterpret
  | UsedMsgEnd
  | LuosTaskAlloc addr addr
  | PullMsg addr
  | PullMsgFromLuosTask u16
  | LookAtLuosTask u16
  | GetLuosTaskCmd u16
  | GetLuosTaskSourceId u16
  | GetLuosTaskSize u16
  | LuosTasksNbr
  | ClearMsgFromLuosTasks addr
  | SetTxTask addr u16
  | PullMsgFromTxTask
  | GetTxTask

fun exec :: "config \<Rightarrow> call \<Rightarrow> state \<Rightarrow> fault + state" where
  "exec c (Init p) s = Inr (MsgAlloc_Init c p s)"
| "exec c Loop s = MsgAlloc_loop c s"
| "exec c InvalidMsg s = MsgAlloc_InvalidMsg c s"
| "exec c (ValidHeader valid data_size) s = MsgAlloc_ValidHeader c valid data_size s"
| "exec c EndMsg s = MsgAlloc_EndMsg c s"
| "exec c (SetData d) s = Inr (MsgAlloc_SetData d s)"
| "exec c (SetMessage msg) s = MsgAlloc_SetMessage c msg s"
| "exec c GetCurrentMsg s = Inr s"
| "exec c IsEmpty s = Inr s"
| "exec c PullMsgToInterpret s =
     and_then (MsgAlloc_PullMsgToInterpret c 0 s) (\<lambda>(r, p, s'). Inr s')"
| "exec c UsedMsgEnd s = Inr (MsgAlloc_UsedMsgEnd s)"
| "exec c (LuosTaskAlloc container msg) s = MsgAlloc_LuosTaskAlloc c container msg s"
| "exec c (PullMsg target) s = and_then (MsgAlloc_PullMsg c target 0 s) (\<lambda>(r, p, s'). Inr s')"
| "exec c (PullMsgFromLuosTask i) s =
     and_then (MsgAlloc_PullMsgFromLuosTask c i 0 s) (\<lambda>(r, p, s'). Inr s')"
| "exec c (LookAtLuosTask i) s = Inr (snd (snd (MsgAlloc_LookAtLuosTask i 0 s)))"
| "exec c (GetLuosTaskCmd i) s = Inr (snd (snd (MsgAlloc_GetLuosTaskCmd c i 0 s)))"
| "exec c (GetLuosTaskSourceId i) s = Inr (snd (snd (MsgAlloc_GetLuosTaskSourceId c i 0 s)))"
| "exec c (GetLuosTaskSize i) s = Inr (snd (snd (MsgAlloc_GetLuosTaskSize c i 0 s)))"
| "exec c LuosTasksNbr s = Inr s"
| "exec c (ClearMsgFromLuosTasks msg) s = MsgAlloc_ClearMsgFromLuosTasks c msg s"
| "exec c (SetTxTask data sz) s = MsgAlloc_SetTxTask c data sz s"
| "exec c PullMsgFromTxTask s = MsgAlloc_PullMsgFromTxTask c s"
| "exec c GetTxTask s = and_then (MsgAlloc_GetTxTask c 0 0 s) (\<lambda>(r, p, n, s'). Inr s')"

fun run :: "config \<Rightarrow> call list \<Rightarrow> state \<Rightarrow> fault + state" where
  "run c [] s = Inr s"
| "run c (x # xs) s = and_then (exec c x s) (run c xs)"

subsection \<open>A small configuration and a start state for concrete runs\<close>

text \<open>
  A buffer of 64 bytes at address \<open>0x20000000\<close>, stacks of 4 entries and a header of 7
  bytes (with \<^verbatim>\<open>cmd\<close> at offset 4 and \<^verbatim>\<open>size\<close> in the last two bytes).
\<close>

definition cfg :: config where
  "cfg = \<lparr>buffer = 0x20000000, MSG_BUFFER_SIZE = 64, MAX_MSG_NB = 4, MAX_DATA_MSG_SIZE = 16,
          sizeof_header = 7, offset_cmd = 4,
          header_source = (\<lambda>m p. 0),
          header_size = (\<lambda>m p. ucast (m (p + 5)) + 256 * ucast (m (p + 6)))\<rparr>"

text \<open>The memory as the C start-up code leaves it: every global is zero.\<close>

definition boot :: state where
  "boot = \<lparr>mem_stat = 0,
           stats = (\<lambda>p. \<lparr>msg_stack_ratio = 0, luos_stack_ratio = 0, msg_drop_number = 0\<rparr>),
           mem = (\<lambda>a. 0),
           current_msg = 0, data_ptr = 0, data_end_estimation = 0, copy_task_pointer = 0,
           msg_tasks = replicate 4 0, msg_tasks_behind = (\<lambda>i. 0), msg_tasks_stack_id = 0,
           used_msg = 0,
           luos_tasks = replicate 4 \<lparr>msg_pt = 0, ll_container_pt = 0\<rparr>,
           luos_tasks_behind = (\<lambda>i. \<lparr>msg_pt = 0, ll_container_pt = 0\<rparr>),
           luos_tasks_stack_id = 0,
           tx_tasks = replicate 4 \<lparr>data_pt = 0, size_tx = 0\<rparr>,
           tx_tasks_behind = (\<lambda>i. \<lparr>data_pt = 0, size_tx = 0\<rparr>),
           tx_tasks_stack_id = 0\<rparr>"

text \<open>The state after \<^verbatim>\<open>MsgAlloc_Init\<close> with a statistics record at \<open>0x20001000\<close>.\<close>

definition start :: state where
  "start = MsgAlloc_Init cfg 0x20001000 boot"


subsection \<open>Notions for stating the properties\<close>

text \<open>The drop counter after \<open>k\<close> more drops: it stops at 255.\<close>

definition sat_add :: "u8 \<Rightarrow> nat \<Rightarrow> u8" where
  "sat_add d k = of_nat (min 255 (unat d + k))"

text \<open>The entries of a stack that are in use: the first \<^verbatim>\<open>stack_id\<close> cells of its array.\<close>

definition valid_msg_tasks :: "state \<Rightarrow> addr list" where
  "valid_msg_tasks s = take (unat (msg_tasks_stack_id s)) (msg_tasks s)"

definition valid_luos_tasks :: "state \<Rightarrow> luos_task list" where
  "valid_luos_tasks s = take (unat (luos_tasks_stack_id s)) (luos_tasks s)"

text \<open>The arrays have their declared length and the counters are within it.\<close>

definition stacks_ok :: "config \<Rightarrow> state \<Rightarrow> bool" where
  "stacks_ok c s \<longleftrightarrow>
     length (msg_tasks s) = MAX_MSG_NB c \<and> length (luos_tasks s) = MAX_MSG_NB c \<and>
     unat (msg_tasks_stack_id s) \<le> MAX_MSG_NB c \<and> unat (luos_tasks_stack_id s) \<le> MAX_MSG_NB c"

text \<open>The state after \<open>k\<close> drops have been counted in the statistics record.\<close>

definition dropped :: "nat \<Rightarrow> state \<Rightarrow> state" where
  "dropped k s =
     s\<lparr>stats := (stats s)(mem_stat s :=
          (stats s (mem_stat s))\<lparr>msg_drop_number := sat_add (msg_drop_number (stats s (mem_stat s))) k\<rparr>)\<rparr>"

text \<open>The cells of \<^verbatim>\<open>msg_tasks\<close> that are not in use hold 0, as \<^verbatim>\<open>MsgAlloc_EndMsg\<close> asserts.\<close>

definition free_slots_zero :: "state \<Rightarrow> bool" where
  "free_slots_zero s \<longleftrightarrow>
     (\<forall>i<length (msg_tasks s). unat (msg_tasks_stack_id s) \<le> i \<longrightarrow> msg_tasks s ! i = 0)"

text \<open>How many of the oldest tasks in a row point into the space from \<open>lo\<close> to \<open>hi\<close>.\<close>

definition luos_hits :: "addr \<Rightarrow> addr \<Rightarrow> state \<Rightarrow> nat" where
  "luos_hits lo hi s = length (takeWhile (\<lambda>t. in_space lo hi (msg_pt t)) (valid_luos_tasks s))"

definition msg_hits :: "addr \<Rightarrow> addr \<Rightarrow> state \<Rightarrow> nat" where
  "msg_hits lo hi s = length (takeWhile (in_space lo hi) (valid_msg_tasks s))"

definition used_hit :: "addr \<Rightarrow> addr \<Rightarrow> state \<Rightarrow> nat" where
  "used_hit lo hi s = (if in_space lo hi (used_msg s) then 1 else 0)"

text \<open>A state with two frames pending on both stacks, the older one in use.\<close>

definition busy :: state where
  "busy = start\<lparr>used_msg := 0x20000000,
                msg_tasks := [0x20000000, 0x20000010, 0, 0],
                msg_tasks_stack_id := 2,
                luos_tasks := [\<lparr>msg_pt = 0x20000000, ll_container_pt = 1\<rparr>,
                               \<lparr>msg_pt = 0x20000010, ll_container_pt = 2\<rparr>,
                               \<lparr>msg_pt = 0, ll_container_pt = 0\<rparr>,
                               \<lparr>msg_pt = 0, ll_container_pt = 0\<rparr>],
                luos_tasks_stack_id := 2,
                current_msg := 0x20000020,
                data_ptr := 0x20000020,
                data_end_estimation := 0x20000029\<rparr>"

text \<open>What a reclaiming step leaves alone, and the order of the drop counters.\<close>

definition keeps_cursor :: "state \<Rightarrow> state \<Rightarrow> bool" where
  "keeps_cursor s s' \<longleftrightarrow>
     current_msg s' = current_msg s \<and> data_ptr s' = data_ptr s \<and>
     data_end_estimation s' = data_end_estimation s \<and>
     copy_task_pointer s' = copy_task_pointer s \<and> mem s' = mem s \<and>
     mem_stat s' = mem_stat s \<and> tx_tasks s' = tx_tasks s \<and>
     tx_tasks_stack_id s' = tx_tasks_stack_id s \<and>
     length (msg_tasks s') = length (msg_tasks s) \<and> length (luos_tasks s') = length (luos_tasks s)"

definition drop_le :: "state \<Rightarrow> state \<Rightarrow> bool" where
  "drop_le s s' \<longleftrightarrow> (\<forall>p. msg_drop_number (stats s p) \<le> msg_drop_number (stats s' p))"

text \<open>Every interpretation task in use points into the buffer, as \<^verbatim>\<open>MsgAlloc_EndMsg\<close> and
  \<^verbatim>\<open>MsgAlloc_PullMsgToInterpret\<close> assert.\<close>

definition msg_tasks_in_buffer :: "config \<Rightarrow> state \<Rightarrow> bool" where
  "msg_tasks_in_buffer c s \<longleftrightarrow> (\<forall>p\<in>set (valid_msg_tasks s). buffer c \<le> p \<and> p < buffer_end c)"

text \<open>The states in which no assertion of the reception path fails.\<close>

definition wf_state :: "config \<Rightarrow> state \<Rightarrow> bool" where
  "wf_state c s \<longleftrightarrow>
     0 < MAX_MSG_NB c \<and> stacks_ok c s \<and> mem_stat s \<noteq> 0 \<and> free_slots_zero s \<and>
     msg_tasks_in_buffer c s"

text \<open>Where \<^verbatim>\<open>MsgAlloc_EndMsg\<close> puts the cursor.\<close>

definition EndMsg_cursor :: "config \<Rightarrow> state \<Rightarrow> addr" where
  "EndMsg_cursor c s =
     (if data_ptr s - 2 + of_nat (sizeof_header c) + 2 > buffer_last c then buffer c
      else if even (unat (mem s (data_ptr s - 2))) then data_ptr s - 2 + 1
      else data_ptr s - 2)"

text \<open>A frame of 13 bytes has just been received at \<open>0x20000020\<close>.\<close>

definition ending :: state where
  "ending = busy\<lparr>data_ptr := 0x2000002D, data_end_estimation := 0x2000002D\<rparr>"

text \<open>A header of 7 bytes has been received at \<open>0x20000030\<close>, 16 bytes before the end of the buffer.\<close>

definition tail :: state where
  "tail = busy\<lparr>current_msg := 0x20000030, data_ptr := 0x20000037,
               data_end_estimation := 0x20000039\<rparr>"

text \<open>The delivery stack is full: two frames, each delivered to two endpoints.\<close>

definition full_luos :: state where
  "full_luos = start\<lparr>luos_tasks := [\<lparr>msg_pt = 0x20000000, ll_container_pt = 1\<rparr>,
                                      \<lparr>msg_pt = 0x20000000, ll_container_pt = 2\<rparr>,
                                      \<lparr>msg_pt = 0x20000010, ll_container_pt = 1\<rparr>,
                                      \<lparr>msg_pt = 0x20000010, ll_container_pt = 2\<rparr>],
                     luos_tasks_stack_id := 4,
                     current_msg := 0x20000020, data_ptr := 0x20000020,
                     data_end_estimation := 0x20000029\<rparr>"

text \<open>Three frames of 4 bytes are staged for transmission, one slot of \<^verbatim>\<open>tx_tasks\<close> is free.\<close>

definition tx3 :: state where
  "tx3 = start\<lparr>tx_tasks := [\<lparr>data_pt = 0x20000000, size_tx = 4\<rparr>,
                               \<lparr>data_pt = 0x20000004, size_tx = 4\<rparr>,
                               \<lparr>data_pt = 0x20000008, size_tx = 4\<rparr>,
                               \<lparr>data_pt = 0, size_tx = 0\<rparr>],
               tx_tasks_stack_id := 3,
               current_msg := 0x2000000C, data_ptr := 0x2000000C,
               data_end_estimation := 0x20000015\<rparr>"

text \<open>
  The three pointers of the reception cursor and the pointer to the statistics are the
  same in both states.
\<close>

definition same_pointers :: "state \<Rightarrow> state \<Rightarrow> bool" where
  "same_pointers s s' \<longleftrightarrow>
     current_msg s' = current_msg s \<and> data_ptr s' = data_ptr s \<and>
     data_end_estimation s' = data_end_estimation s \<and> mem_stat s' = mem_stat s"

subsection \<open>The statistics pointer along a run\<close>



subsection \<open>The reception cursor along a run\<close>

text \<open>
  The configurations in which no address computed by the allocator wraps around: the
  buffer ends at least 131072 bytes below 4294967296, it holds a header and a CRC, and
  its size fits the 16-bit sizes of \<^verbatim>\<open>MsgAlloc_SetTxTask\<close>.
\<close>

definition config_ok :: "config \<Rightarrow> bool" where
  "config_ok c \<longleftrightarrow>
     unat (buffer c) + MSG_BUFFER_SIZE c + 131072 \<le> 4294967296 \<and>
     sizeof_header c + 2 \<le> MSG_BUFFER_SIZE c \<and> MSG_BUFFER_SIZE c < 65536"

text \<open>
  The cursor is ordered inside the buffer, as natural numbers, and the estimated end leaves
  room for a header and a CRC after \<^verbatim>\<open>current_msg\<close>.
\<close>

definition cursor_inv :: "config \<Rightarrow> state \<Rightarrow> bool" where
  "cursor_inv c s \<longleftrightarrow>
     unat (buffer c) \<le> unat (current_msg s) \<and>
     unat (current_msg s) \<le> unat (data_ptr s) \<and>
     unat (data_ptr s) \<le> unat (data_end_estimation s) \<and>
     unat (data_end_estimation s) \<le> unat (buffer c) + MSG_BUFFER_SIZE c \<and>
     unat (current_msg s) + sizeof_header c + 2 \<le> unat (data_end_estimation s)"

text \<open>
  What the callers of the allocator respect, call by call: a byte is written only before
  the estimated end; a header is validated after at most \<^verbatim>\<open>sizeof(header_t)\<close> bytes
  and with a size whose frame fits the buffer; a message is ended after at least the two
  bytes of its CRC; a frame to transmit fits the buffer together with the frame in
  reception. The other calls are free.
\<close>

fun allowed :: "config \<Rightarrow> call \<Rightarrow> state \<Rightarrow> bool" where
  "allowed c (SetData d) s \<longleftrightarrow> data_ptr s < data_end_estimation s"
| "allowed c (ValidHeader valid data_size) s \<longleftrightarrow>
     valid \<noteq> 1 \<or>
     unat (data_ptr s) \<le> unat (current_msg s) + sizeof_header c
       \<and> sizeof_header c + unat data_size + 2 \<le> MSG_BUFFER_SIZE c"
| "allowed c EndMsg s \<longleftrightarrow> unat (current_msg s) + 2 \<le> unat (data_ptr s)"
| "allowed c (SetTxTask data sz) s \<longleftrightarrow>
     unat sz + (unat (data_end_estimation s) - unat (current_msg s)) \<le> MSG_BUFFER_SIZE c"
| "allowed c x s \<longleftrightarrow> True"

text \<open>
  A run is disciplined when each of its calls is allowed in the state in which it is made.
\<close>

fun disciplined :: "config \<Rightarrow> call list \<Rightarrow> state \<Rightarrow> bool" where
  "disciplined c [] s \<longleftrightarrow> True"
| "disciplined c (x # xs) s \<longleftrightarrow>
     allowed c x s \<and> (case exec c x s of Inl f \<Rightarrow> True | Inr s' \<Rightarrow> disciplined c xs s')"

text \<open>
  The reception of a frame of two bytes of data, up to the first byte of data: a header of
  7 bytes, its validation and one byte. Then a frame of 4 bytes is staged for
  transmission: the 8 bytes received move right by 4 bytes, so the two regions of the
  copy overlap.
\<close>

definition relocation :: "call list" where
  "relocation = [SetData 0, SetData 0, SetData 0, SetData 0, SetData 0, SetData 2, SetData 0,
                 ValidHeader 1 2, SetData 5, SetTxTask 0x20002000 4]"

text \<open>The reception goes on: the second byte of data, the two bytes of the CRC and the end.\<close>

definition reception :: "call list" where
  "reception = relocation @ [SetData 6, SetData 7, SetData 8, EndMsg]"

section \<open>Properties\<close>

subsection \<open>The slide loop and the drop counter\<close>

lemma slide_left_Inr:
  "n \<le> length xs \<Longrightarrow>
     \<exists>ys. slide_left xs b rm n = Inr ys \<and> length ys = length xs \<and>
          (\<forall>i<length xs. ys ! i = (if rm \<le> i \<and> i < n then rd xs b (i + 1) else xs ! i))"
proof (induction xs b rm n rule: slide_left.induct)
  case (1 xs b rm n)
  show ?case
  proof (cases "rm < n")
    case False
    then show ?thesis by (subst slide_left.simps) auto
  next
    case True
    let ?xs = "xs[rm := rd xs b (rm + 1)]"
    from True 1(2) have lt: "rm < length xs" by simp
    from 1(1) [OF True lt] 1(2) obtain ys where
      ys: "slide_left ?xs b (rm + 1) n = Inr ys" "length ys = length xs"
          "\<forall>i<length xs. ys ! i = (if rm + 1 \<le> i \<and> i < n then rd ?xs b (i + 1) else ?xs ! i)"
      by auto
    have "slide_left xs b rm n = Inr ys"
      using True lt ys(1) by (subst slide_left.simps) simp
    moreover have "ys ! i = (if rm \<le> i \<and> i < n then rd xs b (i + 1) else xs ! i)"
      if "i < length xs" for i
      using ys(3) [rule_format, OF that] that lt True
      by (cases "i = rm") (auto simp: rd_def nth_list_update)
    ultimately show ?thesis using ys(2) by simp
  qed
qed

lemma unat_u8_le: "unat (d :: u8) \<le> 255"
  using unsigned_less [of d, where 'a = nat] by simp

lemma unat_sat_add: "unat (sat_add d k) = min 255 (unat d + k)"
  by (simp add: sat_add_def unat_of_nat)

lemma sat_add_0: "sat_add d 0 = d"
  using unat_u8_le [of d] by (simp add: sat_add_def)

lemma sat_add_sat_add: "sat_add (sat_add d j) k = sat_add d (j + k)"
  by (simp add: word_unat_eq_iff unat_sat_add)

lemma sat_add_1: "sat_add d 1 = (if d < 0xFF then d + 1 else d)"
proof (cases "d < 0xFF")
  case True
  then have "unat d < 255" by (simp add: word_less_nat_alt)
  then show ?thesis using True by (simp add: sat_add_def)
next
  case False
  then have "unat d = 255" using unat_u8_le [of d] by (simp add: word_less_nat_alt)
  then show ?thesis using False by (simp add: word_unat_eq_iff unat_sat_add)
qed

lemma dropped_0: "dropped 0 s = s"
  by (simp add: dropped_def sat_add_0)

lemma dropped_dropped: "dropped j (dropped k s) = dropped (k + j) s"
  by (simp add: dropped_def sat_add_sat_add)

lemma count_drop_dropped: "mem_stat s \<noteq> 0 \<Longrightarrow> count_drop s = Inr (dropped 1 s)"
  using sat_add_1 [of "msg_drop_number (stats s (mem_stat s))"]
  by (auto simp: count_drop_def dropped_def Let_def)

lemma ClearLuosTask_0:
  assumes "stacks_ok c s" and "luos_tasks_stack_id s \<noteq> 0"
  shows "\<exists>xs. MsgAlloc_ClearLuosTask c 0 s
              = Inr (s\<lparr>luos_tasks := xs, luos_tasks_stack_id := luos_tasks_stack_id s - 1\<rparr>)
            \<and> length xs = MAX_MSG_NB c
            \<and> take (unat (luos_tasks_stack_id s - 1)) xs = tl (valid_luos_tasks s)"
proof -
  let ?n = "unat (luos_tasks_stack_id s)"
  from assms have n: "?n \<le> length (luos_tasks s)" "0 < ?n" "length (luos_tasks s) = MAX_MSG_NB c"
    by (simp_all add: stacks_ok_def unat_gt_0)
  from slide_left_Inr [OF n(1), of "luos_tasks_behind s" 0] obtain ys where
    ys: "slide_left (luos_tasks s) (luos_tasks_behind s) 0 ?n = Inr ys"
        "length ys = length (luos_tasks s)"
        "\<forall>i<length (luos_tasks s). ys ! i =
           (if i < ?n then rd (luos_tasks s) (luos_tasks_behind s) (i + 1) else luos_tasks s ! i)"
    by auto
  have m: "unat (luos_tasks_stack_id s - 1) = ?n - 1"
    using assms(2) by (simp add: unat_minus_one)
  have "take (?n - 1) ys = tl (take ?n (luos_tasks s))"
    using ys(2,3) n by (auto simp: list_eq_iff_nth_eq rd_def nth_tl)
  with ys n m assms show ?thesis
    by (intro exI [of _ ys]) (simp add: MsgAlloc_ClearLuosTask_def and_then_def valid_luos_tasks_def)
qed

lemma ClearMsgTask_pop:
  assumes "stacks_ok c s" and "msg_tasks_stack_id s \<noteq> 0"
  shows "\<exists>xs. MsgAlloc_ClearMsgTask c s
              = Inr (s\<lparr>msg_tasks := xs, msg_tasks_stack_id := msg_tasks_stack_id s - 1\<rparr>)
            \<and> length xs = MAX_MSG_NB c
            \<and> take (unat (msg_tasks_stack_id s - 1)) xs = tl (valid_msg_tasks s)
            \<and> (\<forall>i<MAX_MSG_NB c. unat (msg_tasks_stack_id s) \<le> i \<longrightarrow> xs ! i = msg_tasks s ! i)
            \<and> xs ! unat (msg_tasks_stack_id s - 1) = 0"
proof -
  let ?n = "unat (msg_tasks_stack_id s)"
  from assms have n: "?n \<le> length (msg_tasks s)" "0 < ?n" "length (msg_tasks s) = MAX_MSG_NB c"
    by (simp_all add: stacks_ok_def unat_gt_0)
  from slide_left_Inr [OF n(1), of "msg_tasks_behind s" 0] obtain ys where
    ys: "slide_left (msg_tasks s) (msg_tasks_behind s) 0 ?n = Inr ys"
        "length ys = length (msg_tasks s)"
        "\<forall>i<length (msg_tasks s). ys ! i =
           (if i < ?n then rd (msg_tasks s) (msg_tasks_behind s) (i + 1) else msg_tasks s ! i)"
    by auto
  have m: "unat (msg_tasks_stack_id s - 1) = ?n - 1"
    using assms(2) by (simp add: unat_minus_one)
  have "take (?n - 1) (ys[?n - 1 := 0]) = tl (take ?n (msg_tasks s))"
    using ys(2,3) n by (auto simp: list_eq_iff_nth_eq rd_def nth_tl)
  moreover have "0 < msg_tasks_stack_id s"
    using assms(2) by (simp add: word_greater_zero_iff)
  moreover have "\<forall>i<MAX_MSG_NB c. ?n \<le> i \<longrightarrow> ys[?n - 1 := 0] ! i = msg_tasks s ! i"
    using ys(2,3) n by auto
  ultimately show ?thesis
    using ys n m assms
    by (intro exI [of _ "ys[?n - 1 := 0]"])
       (simp add: MsgAlloc_ClearMsgTask_def and_then_def valid_msg_tasks_def wr_def Let_def)
qed

lemma dropped_simps [simp]:
  "mem_stat (dropped k s) = mem_stat s"
  "luos_tasks (dropped k s) = luos_tasks s"
  "luos_tasks_stack_id (dropped k s) = luos_tasks_stack_id s"
  "luos_tasks_behind (dropped k s) = luos_tasks_behind s"
  "msg_tasks (dropped k s) = msg_tasks s"
  "msg_tasks_stack_id (dropped k s) = msg_tasks_stack_id s"
  "msg_tasks_behind (dropped k s) = msg_tasks_behind s"
  "used_msg (dropped k s) = used_msg s"
  "current_msg (dropped k s) = current_msg s"
  "data_ptr (dropped k s) = data_ptr s"
  "data_end_estimation (dropped k s) = data_end_estimation s"
  "copy_task_pointer (dropped k s) = copy_task_pointer s"
  "mem (dropped k s) = mem s"
  "tx_tasks (dropped k s) = tx_tasks s"
  "tx_tasks_stack_id (dropped k s) = tx_tasks_stack_id s"
  by (simp_all add: dropped_def)

lemma stacks_ok_dropped [simp]: "stacks_ok c (dropped k s) = stacks_ok c s"
  by (simp add: stacks_ok_def)

lemma take_pos_Cons: "0 < n \<Longrightarrow> 0 < length xs \<Longrightarrow> take n xs = rd xs b 0 # tl (take n xs)"
  by (cases xs; cases n) (simp_all add: rd_def)

lemma hd_valid_luos:
  "stacks_ok c s \<Longrightarrow> luos_tasks_stack_id s > 0 \<Longrightarrow>
     valid_luos_tasks s = rd (luos_tasks s) (luos_tasks_behind s) 0 # tl (valid_luos_tasks s)"
  unfolding valid_luos_tasks_def
  by (rule take_pos_Cons) (auto simp: stacks_ok_def word_less_nat_alt)

lemma ClearMsgSpace_luos_result:
  assumes "stacks_ok c s" and "mem_stat s \<noteq> 0"
  shows "\<exists>xs. ClearMsgSpace_luos c lo hi s
              = Inr (dropped (length (takeWhile (\<lambda>t. in_space lo hi (msg_pt t)) (valid_luos_tasks s)))
                      (s\<lparr>luos_tasks := xs,
                         luos_tasks_stack_id := luos_tasks_stack_id s
                           - of_nat (length (takeWhile (\<lambda>t. in_space lo hi (msg_pt t)) (valid_luos_tasks s)))\<rparr>))
            \<and> length xs = MAX_MSG_NB c
            \<and> take (unat (luos_tasks_stack_id s)
                      - length (takeWhile (\<lambda>t. in_space lo hi (msg_pt t)) (valid_luos_tasks s))) xs
                = dropWhile (\<lambda>t. in_space lo hi (msg_pt t)) (valid_luos_tasks s)"
  using assms
proof (induction c lo hi s rule: ClearMsgSpace_luos.induct)
  case (1 c lo hi s)
  let ?P = "\<lambda>t. in_space lo hi (msg_pt t)"
  let ?h = "rd (luos_tasks s) (luos_tasks_behind s) 0"
  show ?case
  proof (cases "?P ?h \<and> luos_tasks_stack_id s > 0")
    case False
    have "takeWhile ?P (valid_luos_tasks s) = []"
    proof (cases "luos_tasks_stack_id s > 0")
      case True
      with False hd_valid_luos [OF "1.prems"(1) True] show ?thesis
        by (metis takeWhile.simps(2))
    next
      case False
      then have "luos_tasks_stack_id s = 0" by (simp add: word_greater_zero_iff)
      then show ?thesis by (simp add: valid_luos_tasks_def)
    qed
    moreover from this have "dropWhile ?P (valid_luos_tasks s) = valid_luos_tasks s"
      by (metis takeWhile_dropWhile_id append_Nil)
    moreover have "ClearMsgSpace_luos c lo hi s = Inr s"
      using False by (subst ClearMsgSpace_luos.simps) auto
    ultimately show ?thesis
      using "1.prems"
      by (intro exI [of _ "luos_tasks s"]) (simp add: dropped_0 stacks_ok_def valid_luos_tasks_def)
  next
    case True
    then have nz: "luos_tasks_stack_id s \<noteq> 0" by auto
    from ClearLuosTask_0 [OF "1.prems"(1) nz] obtain xs1 where
      xs1: "MsgAlloc_ClearLuosTask c 0 s
              = Inr (s\<lparr>luos_tasks := xs1, luos_tasks_stack_id := luos_tasks_stack_id s - 1\<rparr>)"
           "length xs1 = MAX_MSG_NB c"
           "take (unat (luos_tasks_stack_id s - 1)) xs1 = tl (valid_luos_tasks s)"
      by auto
    let ?s1 = "s\<lparr>luos_tasks := xs1, luos_tasks_stack_id := luos_tasks_stack_id s - 1\<rparr>"
    let ?s2 = "dropped 1 ?s1"
    have cd: "count_drop ?s1 = Inr ?s2"
      using "1.prems"(2) by (intro count_drop_dropped) simp
    have m: "unat (luos_tasks_stack_id s - 1) = unat (luos_tasks_stack_id s) - 1"
      using nz by (simp add: unat_minus_one)
    have ok2: "stacks_ok c ?s2"
      using "1.prems"(1) xs1(2) m by (auto simp: stacks_ok_def)
    have v2: "valid_luos_tasks ?s2 = tl (valid_luos_tasks s)"
      using xs1(3) by (simp add: valid_luos_tasks_def)
    let ?k = "length (takeWhile ?P (tl (valid_luos_tasks s)))"
    from "1.IH" [OF True xs1(1) cd ok2] "1.prems"(2) v2 obtain xs where
      xs: "ClearMsgSpace_luos c lo hi ?s2
             = Inr (dropped ?k (?s2\<lparr>luos_tasks := xs,
                                     luos_tasks_stack_id := luos_tasks_stack_id ?s2 - of_nat ?k\<rparr>))"
          "length xs = MAX_MSG_NB c"
          "take (unat (luos_tasks_stack_id ?s2) - ?k) xs = dropWhile ?P (tl (valid_luos_tasks s))"
      by auto
    have tw: "takeWhile ?P (valid_luos_tasks s) = ?h # takeWhile ?P (tl (valid_luos_tasks s))"
         "dropWhile ?P (valid_luos_tasks s) = dropWhile ?P (tl (valid_luos_tasks s))"
      using True hd_valid_luos [OF "1.prems"(1), of ] 
      by (metis takeWhile.simps(2), metis dropWhile.simps(2))
    have "ClearMsgSpace_luos c lo hi s = ClearMsgSpace_luos c lo hi ?s2"
      using True xs1(1) cd by (subst ClearMsgSpace_luos.simps) (simp add: and_then_def)
    also have "\<dots> = Inr (dropped (Suc ?k) (s\<lparr>luos_tasks := xs,
                 luos_tasks_stack_id := luos_tasks_stack_id s - of_nat (Suc ?k)\<rparr>))"
      unfolding xs(1) by (simp add: dropped_def sat_add_sat_add)
    finally show ?thesis
      using xs(2,3) tw m by (intro exI [of _ xs]) simp
  qed
qed

lemma hd_valid_msg:
  "stacks_ok c s \<Longrightarrow> msg_tasks_stack_id s > 0 \<Longrightarrow>
     valid_msg_tasks s = rd (msg_tasks s) (msg_tasks_behind s) 0 # tl (valid_msg_tasks s)"
  unfolding valid_msg_tasks_def
  by (rule take_pos_Cons) (auto simp: stacks_ok_def word_less_nat_alt)

lemma ClearMsgSpace_msg_result:
  assumes "stacks_ok c s" and "mem_stat s \<noteq> 0"
  shows "\<exists>xs. ClearMsgSpace_msg c lo hi s
              = Inr (dropped (length (takeWhile (in_space lo hi) (valid_msg_tasks s)))
                      (s\<lparr>msg_tasks := xs,
                         msg_tasks_stack_id := msg_tasks_stack_id s
                           - of_nat (length (takeWhile (in_space lo hi) (valid_msg_tasks s)))\<rparr>))
            \<and> length xs = MAX_MSG_NB c
            \<and> take (unat (msg_tasks_stack_id s)
                      - length (takeWhile (in_space lo hi) (valid_msg_tasks s))) xs
                = dropWhile (in_space lo hi) (valid_msg_tasks s)
            \<and> (free_slots_zero s \<longrightarrow>
                 (\<forall>i<MAX_MSG_NB c. unat (msg_tasks_stack_id s)
                      - length (takeWhile (in_space lo hi) (valid_msg_tasks s)) \<le> i \<longrightarrow> xs ! i = 0))"
  using assms
proof (induction c lo hi s rule: ClearMsgSpace_msg.induct)
  case (1 c lo hi s)
  let ?P = "in_space lo hi"
  let ?h = "rd (msg_tasks s) (msg_tasks_behind s) 0"
  show ?case
  proof (cases "?P ?h \<and> msg_tasks_stack_id s > 0")
    case False
    have "takeWhile ?P (valid_msg_tasks s) = []"
    proof (cases "msg_tasks_stack_id s > 0")
      case True
      with False hd_valid_msg [OF "1.prems"(1) True] show ?thesis
        by (metis takeWhile.simps(2))
    next
      case False
      then have "msg_tasks_stack_id s = 0" by (simp add: word_greater_zero_iff)
      then show ?thesis by (simp add: valid_msg_tasks_def)
    qed
    moreover from this have "dropWhile ?P (valid_msg_tasks s) = valid_msg_tasks s"
      by (metis takeWhile_dropWhile_id append_Nil)
    moreover have "ClearMsgSpace_msg c lo hi s = Inr s"
      using False by (subst ClearMsgSpace_msg.simps) auto
    ultimately show ?thesis
      using "1.prems"
      by (intro exI [of _ "msg_tasks s"])
         (simp add: dropped_0 stacks_ok_def valid_msg_tasks_def free_slots_zero_def)
  next
    case True
    then have nz: "msg_tasks_stack_id s \<noteq> 0" by auto
    from ClearMsgTask_pop [OF "1.prems"(1) nz] obtain xs1 where
      xs1: "MsgAlloc_ClearMsgTask c s
              = Inr (s\<lparr>msg_tasks := xs1, msg_tasks_stack_id := msg_tasks_stack_id s - 1\<rparr>)"
           "length xs1 = MAX_MSG_NB c"
           "take (unat (msg_tasks_stack_id s - 1)) xs1 = tl (valid_msg_tasks s)"
           "\<forall>i<MAX_MSG_NB c. unat (msg_tasks_stack_id s) \<le> i \<longrightarrow> xs1 ! i = msg_tasks s ! i"
           "xs1 ! unat (msg_tasks_stack_id s - 1) = 0"
      by auto
    let ?s1 = "s\<lparr>msg_tasks := xs1, msg_tasks_stack_id := msg_tasks_stack_id s - 1\<rparr>"
    let ?s2 = "dropped 1 ?s1"
    have cd: "count_drop ?s1 = Inr ?s2"
      using "1.prems"(2) by (intro count_drop_dropped) simp
    have m: "unat (msg_tasks_stack_id s - 1) = unat (msg_tasks_stack_id s) - 1"
      using nz by (simp add: unat_minus_one)
    have pos: "0 < unat (msg_tasks_stack_id s)"
      using nz by (simp add: unat_gt_0)
    have ok2: "stacks_ok c ?s2"
      using "1.prems"(1) xs1(2) m by (auto simp: stacks_ok_def)
    have v2: "valid_msg_tasks ?s2 = tl (valid_msg_tasks s)"
      using xs1(3) by (simp add: valid_msg_tasks_def)
    have fz: "free_slots_zero s \<Longrightarrow> free_slots_zero ?s2"
    proof -
      assume f: "free_slots_zero s"
      have "xs1 ! i = 0" if "i < MAX_MSG_NB c" "unat (msg_tasks_stack_id s) - 1 \<le> i" for i
      proof (cases "i = unat (msg_tasks_stack_id s) - 1")
        case True
        then show ?thesis using xs1(5) m by simp
      next
        case False
        with that have "unat (msg_tasks_stack_id s) \<le> i" by simp
        with that xs1(4) f "1.prems"(1) show ?thesis
          by (simp add: free_slots_zero_def stacks_ok_def)
      qed
      then show ?thesis using xs1(2) m by (simp add: free_slots_zero_def)
    qed
    let ?k = "length (takeWhile ?P (tl (valid_msg_tasks s)))"
    from "1.IH" [OF True xs1(1) cd ok2] "1.prems"(2) v2 obtain xs where
      xs: "ClearMsgSpace_msg c lo hi ?s2
             = Inr (dropped ?k (?s2\<lparr>msg_tasks := xs,
                                     msg_tasks_stack_id := msg_tasks_stack_id ?s2 - of_nat ?k\<rparr>))"
          "length xs = MAX_MSG_NB c"
          "take (unat (msg_tasks_stack_id ?s2) - ?k) xs = dropWhile ?P (tl (valid_msg_tasks s))"
          "free_slots_zero ?s2 \<longrightarrow>
             (\<forall>i<MAX_MSG_NB c. unat (msg_tasks_stack_id ?s2) - ?k \<le> i \<longrightarrow> xs ! i = 0)"
      by auto
    have tw: "takeWhile ?P (valid_msg_tasks s) = ?h # takeWhile ?P (tl (valid_msg_tasks s))"
         "dropWhile ?P (valid_msg_tasks s) = dropWhile ?P (tl (valid_msg_tasks s))"
      using True hd_valid_msg [OF "1.prems"(1)]
      by (metis takeWhile.simps(2), metis dropWhile.simps(2))
    have "ClearMsgSpace_msg c lo hi s = ClearMsgSpace_msg c lo hi ?s2"
      using True xs1(1) cd by (subst ClearMsgSpace_msg.simps) (simp add: and_then_def)
    also have "\<dots> = Inr (dropped (Suc ?k) (s\<lparr>msg_tasks := xs,
                 msg_tasks_stack_id := msg_tasks_stack_id s - of_nat (Suc ?k)\<rparr>))"
      unfolding xs(1) by (simp add: dropped_def sat_add_sat_add)
    finally show ?thesis
      using xs(2,3,4) fz tw m by (intro exI [of _ xs]) simp
  qed
qed

lemma unat_sub_of_nat: "k \<le> unat (w :: u16) \<Longrightarrow> unat (w - of_nat k) = unat w - k"
proof -
  assume k: "k \<le> unat w"
  then have u: "unat (of_nat k :: u16) = k" by (rule le_unat_uoi)
  with k have "(of_nat k :: u16) \<le> w" by (simp add: word_le_nat_alt)
  then show ?thesis using u by (simp add: unat_sub)
qed

lemma luos_hits_le: "luos_hits lo hi s \<le> unat (luos_tasks_stack_id s)"
proof -
  have "luos_hits lo hi s \<le> length (valid_luos_tasks s)"
    unfolding luos_hits_def by (rule length_takeWhile_le)
  then show ?thesis by (simp add: valid_luos_tasks_def)
qed

lemma msg_hits_le: "msg_hits lo hi s \<le> unat (msg_tasks_stack_id s)"
proof -
  have "msg_hits lo hi s \<le> length (valid_msg_tasks s)"
    unfolding msg_hits_def by (rule length_takeWhile_le)
  then show ?thesis by (simp add: valid_msg_tasks_def)
qed

lemma ClearMsgSpace_result:
  assumes "stacks_ok c s" and "mem_stat s \<noteq> 0" and "\<not> hi > buffer_last c"
  shows "\<exists>ls ms. MsgAlloc_ClearMsgSpace c lo hi s
           = Inr (SUCCEED,
                  dropped (used_hit lo hi s + luos_hits lo hi s + msg_hits lo hi s)
                    (s\<lparr>used_msg := (if in_space lo hi (used_msg s) then 0 else used_msg s),
                       luos_tasks := ls,
                       luos_tasks_stack_id := luos_tasks_stack_id s - of_nat (luos_hits lo hi s),
                       msg_tasks := ms,
                       msg_tasks_stack_id := msg_tasks_stack_id s - of_nat (msg_hits lo hi s)\<rparr>))
         \<and> length ls = MAX_MSG_NB c \<and> length ms = MAX_MSG_NB c
         \<and> take (unat (luos_tasks_stack_id s) - luos_hits lo hi s) ls
             = dropWhile (\<lambda>t. in_space lo hi (msg_pt t)) (valid_luos_tasks s)
         \<and> take (unat (msg_tasks_stack_id s) - msg_hits lo hi s) ms
             = dropWhile (in_space lo hi) (valid_msg_tasks s)
         \<and> (free_slots_zero s \<longrightarrow>
              (\<forall>i<MAX_MSG_NB c. unat (msg_tasks_stack_id s) - msg_hits lo hi s \<le> i \<longrightarrow> ms ! i = 0))"
proof -
  let ?u = "used_hit lo hi s"
  let ?s0 = "s\<lparr>used_msg := (if in_space lo hi (used_msg s) then 0 else used_msg s)\<rparr>"
  let ?s1 = "dropped ?u ?s0"
  have step1: "(if in_space lo hi (used_msg s) then count_drop (s\<lparr>used_msg := 0\<rparr>) else Inr s) = Inr ?s1"
    using assms(2) by (simp add: used_hit_def dropped_0 count_drop_dropped)
  have ok1: "stacks_ok c ?s1" "mem_stat ?s1 \<noteq> 0"
    using assms by (simp_all add: stacks_ok_def)
  have vl1: "valid_luos_tasks ?s1 = valid_luos_tasks s"
    by (simp add: valid_luos_tasks_def)
  from ClearMsgSpace_luos_result [OF ok1, of lo hi] vl1 obtain ls where
    ls: "ClearMsgSpace_luos c lo hi ?s1
           = Inr (dropped (luos_hits lo hi s)
                   (?s1\<lparr>luos_tasks := ls,
                        luos_tasks_stack_id := luos_tasks_stack_id s - of_nat (luos_hits lo hi s)\<rparr>))"
        "length ls = MAX_MSG_NB c"
        "take (unat (luos_tasks_stack_id s) - luos_hits lo hi s) ls
           = dropWhile (\<lambda>t. in_space lo hi (msg_pt t)) (valid_luos_tasks s)"
    by (auto simp: luos_hits_def)
  let ?s2 = "dropped (luos_hits lo hi s)
               (?s1\<lparr>luos_tasks := ls,
                    luos_tasks_stack_id := luos_tasks_stack_id s - of_nat (luos_hits lo hi s)\<rparr>)"
  have ok2: "stacks_ok c ?s2" "mem_stat ?s2 \<noteq> 0"
    using assms ls(2) luos_hits_le [of lo hi s]
    by (auto simp: stacks_ok_def unat_sub_of_nat)
  have vm2: "valid_msg_tasks ?s2 = valid_msg_tasks s" "msg_tasks_stack_id ?s2 = msg_tasks_stack_id s"
            "free_slots_zero ?s2 = free_slots_zero s"
    by (simp_all add: valid_msg_tasks_def free_slots_zero_def)
  from ClearMsgSpace_msg_result [OF ok2, of lo hi] obtain ms where
    ms: "ClearMsgSpace_msg c lo hi ?s2
           = Inr (dropped (msg_hits lo hi s)
                   (?s2\<lparr>msg_tasks := ms,
                        msg_tasks_stack_id := msg_tasks_stack_id s - of_nat (msg_hits lo hi s)\<rparr>))"
        "length ms = MAX_MSG_NB c"
        "take (unat (msg_tasks_stack_id s) - msg_hits lo hi s) ms
           = dropWhile (in_space lo hi) (valid_msg_tasks s)"
        "free_slots_zero s \<longrightarrow>
              (\<forall>i<MAX_MSG_NB c. unat (msg_tasks_stack_id s) - msg_hits lo hi s \<le> i \<longrightarrow> ms ! i = 0)"
    unfolding vm2 msg_hits_def by blast
  have "MsgAlloc_ClearMsgSpace c lo hi s
          = Inr (SUCCEED, dropped (msg_hits lo hi s)
                   (?s2\<lparr>msg_tasks := ms,
                        msg_tasks_stack_id := msg_tasks_stack_id s - of_nat (msg_hits lo hi s)\<rparr>))"
    using assms(3) by (simp add: MsgAlloc_ClearMsgSpace_def step1 ls(1) ms(1) and_then_def)
  also have "dropped (msg_hits lo hi s)
                   (?s2\<lparr>msg_tasks := ms,
                        msg_tasks_stack_id := msg_tasks_stack_id s - of_nat (msg_hits lo hi s)\<rparr>)
       = dropped (used_hit lo hi s + luos_hits lo hi s + msg_hits lo hi s)
                    (s\<lparr>used_msg := (if in_space lo hi (used_msg s) then 0 else used_msg s),
                       luos_tasks := ls,
                       luos_tasks_stack_id := luos_tasks_stack_id s - of_nat (luos_hits lo hi s),
                       msg_tasks := ms,
                       msg_tasks_stack_id := msg_tasks_stack_id s - of_nat (msg_hits lo hi s)\<rparr>)"
    by (simp add: dropped_def sat_add_sat_add)
  finally show ?thesis
    using ls(2,3) ms(2,3,4) by blast
qed

lemmas concrete_defs = busy_def start_def boot_def cfg_def MsgAlloc_Init_def buffer_last_def buffer_end_def
  stacks_ok_def valid_luos_tasks_def valid_msg_tasks_def in_space_def used_hit_def luos_hits_def msg_hits_def

lemmas run_defs = start_def boot_def cfg_def MsgAlloc_Init_def buffer_last_def buffer_end_def
  MsgAlloc_SetData_def and_then_def Let_def MsgAlloc_ValidHeader_def
  MsgAlloc_DoWeHaveSpace_def frame_end_def count_drop_def MsgAlloc_EndMsg_def next_msg_def
  MsgAlloc_ClearMsgSpace_def ClearMsgSpace_luos.simps ClearMsgSpace_msg.simps
  MsgAlloc_ClearMsgTask_def slide_left.simps in_space_def wr_def rd_def
  MsgAlloc_SetMessage_def SetMessage_data_size_def SetMessage_wrap_def
  MsgAlloc_SetTxTask_def SetTxTask_place_def SetTxTask_at_start_def SetTxTask_rx_to_start_def
  SetTxTask_rx_shifted_def progression_size_def estimated_size_def
  MsgAlloc_PullMsgFromTxTask_def SetTxTask_push_def memcpy_def rest_length_def
  write_bytes_def

subsection \<open>The overlap reclaimer (C1)\<close>

text \<open>
  Claim C1. \<^verbatim>\<open>MsgAlloc_ClearMsgSpace(from, to)\<close> returns \<^verbatim>\<open>FAILED\<close> exactly when \<open>to\<close> lies
  past the last byte of the buffer, and then changes nothing. Otherwise, in a state whose
  stacks are within their arrays and whose statistics pointer is set, it returns
  \<^verbatim>\<open>SUCCEED\<close> and: \<^verbatim>\<open>used_msg\<close> is nulled if it lies in the closed range; the oldest
  delivery tasks are popped as long as the oldest one points into the range, and then the
  oldest interpretation tasks likewise; the drop counter has grown by one for
  \<^verbatim>\<open>used_msg\<close> and by one per pop, stopping at 255; nothing else has changed.
\<close>

theorem ClearMsgSpace_reclaims:
  "(hi > buffer_last c \<longrightarrow> MsgAlloc_ClearMsgSpace c lo hi s = Inr (FAILED, s)) \<and>
   (stacks_ok c s \<and> mem_stat s \<noteq> 0 \<and> \<not> hi > buffer_last c \<longrightarrow>
      (\<exists>s'. MsgAlloc_ClearMsgSpace c lo hi s = Inr (SUCCEED, s')
         \<and> used_msg s' = (if in_space lo hi (used_msg s) then 0 else used_msg s)
         \<and> valid_luos_tasks s' = dropWhile (\<lambda>t. in_space lo hi (msg_pt t)) (valid_luos_tasks s)
         \<and> valid_msg_tasks s' = dropWhile (in_space lo hi) (valid_msg_tasks s)
         \<and> unat (msg_drop_number (stats s' (mem_stat s')))
             = min 255 (unat (msg_drop_number (stats s (mem_stat s)))
                        + used_hit lo hi s + luos_hits lo hi s + msg_hits lo hi s)
         \<and> s' = dropped (used_hit lo hi s + luos_hits lo hi s + msg_hits lo hi s)
                  (s\<lparr>used_msg := used_msg s',
                     luos_tasks := luos_tasks s', luos_tasks_stack_id := luos_tasks_stack_id s',
                     msg_tasks := msg_tasks s', msg_tasks_stack_id := msg_tasks_stack_id s'\<rparr>)))"
proof (intro conjI impI)
  assume "hi > buffer_last c"
  then show "MsgAlloc_ClearMsgSpace c lo hi s = Inr (FAILED, s)"
    by (simp add: MsgAlloc_ClearMsgSpace_def)
next
  assume a: "stacks_ok c s \<and> mem_stat s \<noteq> 0 \<and> \<not> hi > buffer_last c"
  let ?k = "used_hit lo hi s + luos_hits lo hi s + msg_hits lo hi s"
  from a ClearMsgSpace_result [of c s hi lo] obtain ls ms where
    r: "MsgAlloc_ClearMsgSpace c lo hi s
           = Inr (SUCCEED,
                  dropped ?k
                    (s\<lparr>used_msg := (if in_space lo hi (used_msg s) then 0 else used_msg s),
                       luos_tasks := ls,
                       luos_tasks_stack_id := luos_tasks_stack_id s - of_nat (luos_hits lo hi s),
                       msg_tasks := ms,
                       msg_tasks_stack_id := msg_tasks_stack_id s - of_nat (msg_hits lo hi s)\<rparr>))"
       "take (unat (luos_tasks_stack_id s) - luos_hits lo hi s) ls
             = dropWhile (\<lambda>t. in_space lo hi (msg_pt t)) (valid_luos_tasks s)"
       "take (unat (msg_tasks_stack_id s) - msg_hits lo hi s) ms
             = dropWhile (in_space lo hi) (valid_msg_tasks s)"
    by blast
  let ?s' = "dropped ?k
                    (s\<lparr>used_msg := (if in_space lo hi (used_msg s) then 0 else used_msg s),
                       luos_tasks := ls,
                       luos_tasks_stack_id := luos_tasks_stack_id s - of_nat (luos_hits lo hi s),
                       msg_tasks := ms,
                       msg_tasks_stack_id := msg_tasks_stack_id s - of_nat (msg_hits lo hi s)\<rparr>)"
  have "valid_luos_tasks ?s' = dropWhile (\<lambda>t. in_space lo hi (msg_pt t)) (valid_luos_tasks s)"
    using r(2) luos_hits_le [of lo hi s] by (simp add: valid_luos_tasks_def unat_sub_of_nat)
  moreover have "valid_msg_tasks ?s' = dropWhile (in_space lo hi) (valid_msg_tasks s)"
    using r(3) msg_hits_le [of lo hi s] by (simp add: valid_msg_tasks_def unat_sub_of_nat)
  moreover have "unat (msg_drop_number (stats ?s' (mem_stat ?s')))
             = min 255 (unat (msg_drop_number (stats s (mem_stat s))) + ?k)"
    by (simp add: dropped_def unat_sat_add)
  moreover have "?s' = dropped ?k
                  (s\<lparr>used_msg := used_msg ?s',
                     luos_tasks := luos_tasks ?s', luos_tasks_stack_id := luos_tasks_stack_id ?s',
                     msg_tasks := msg_tasks ?s', msg_tasks_stack_id := msg_tasks_stack_id ?s'\<rparr>)"
    by (simp add: dropped_def)
  ultimately show "\<exists>s'. MsgAlloc_ClearMsgSpace c lo hi s = Inr (SUCCEED, s')
         \<and> used_msg s' = (if in_space lo hi (used_msg s) then 0 else used_msg s)
         \<and> valid_luos_tasks s' = dropWhile (\<lambda>t. in_space lo hi (msg_pt t)) (valid_luos_tasks s)
         \<and> valid_msg_tasks s' = dropWhile (in_space lo hi) (valid_msg_tasks s)
         \<and> unat (msg_drop_number (stats s' (mem_stat s')))
             = min 255 (unat (msg_drop_number (stats s (mem_stat s)))
                        + used_hit lo hi s + luos_hits lo hi s + msg_hits lo hi s)
         \<and> s' = dropped (used_hit lo hi s + luos_hits lo hi s + msg_hits lo hi s)
                  (s\<lparr>used_msg := used_msg s',
                     luos_tasks := luos_tasks s', luos_tasks_stack_id := luos_tasks_stack_id s',
                     msg_tasks := msg_tasks s', msg_tasks_stack_id := msg_tasks_stack_id s'\<rparr>)"
    using r(1) by (intro exI [of _ ?s']) (simp add: add.assoc)
qed

theorem ClearMsgSpace_reclaims_witness:
  "stacks_ok cfg busy \<and> mem_stat busy \<noteq> 0 \<and> \<not> 0x20000008 > buffer_last cfg \<and>
   (\<exists>s'. MsgAlloc_ClearMsgSpace cfg 0x20000000 0x20000008 busy = Inr (SUCCEED, s')
      \<and> used_msg s' = 0
      \<and> valid_luos_tasks s' = [\<lparr>msg_pt = 0x20000010, ll_container_pt = 2\<rparr>]
      \<and> valid_msg_tasks s' = [0x20000010]
      \<and> unat (msg_drop_number (stats s' (mem_stat s'))) = 3)"
proof -
  have h: "stacks_ok cfg busy \<and> mem_stat busy \<noteq> 0 \<and> \<not> 0x20000008 > buffer_last cfg"
    by (simp add: concrete_defs)
  with ClearMsgSpace_reclaims [where c = cfg and s = busy and lo = "0x20000000" and hi = "0x20000008"] obtain s' where
    "MsgAlloc_ClearMsgSpace cfg 0x20000000 0x20000008 busy = Inr (SUCCEED, s')"
    "used_msg s' = (if in_space 0x20000000 0x20000008 (used_msg busy) then 0 else used_msg busy)"
    "valid_luos_tasks s' = dropWhile (\<lambda>t. in_space 0x20000000 0x20000008 (msg_pt t)) (valid_luos_tasks busy)"
    "valid_msg_tasks s' = dropWhile (in_space 0x20000000 0x20000008) (valid_msg_tasks busy)"
    "unat (msg_drop_number (stats s' (mem_stat s')))
             = min 255 (unat (msg_drop_number (stats busy (mem_stat busy)))
                        + used_hit 0x20000000 0x20000008 busy + luos_hits 0x20000000 0x20000008 busy
                        + msg_hits 0x20000000 0x20000008 busy)"
    by blast
  moreover have "in_space 0x20000000 0x20000008 (used_msg busy)"
    "dropWhile (\<lambda>t. in_space 0x20000000 0x20000008 (msg_pt t)) (valid_luos_tasks busy)
       = [\<lparr>msg_pt = 0x20000010, ll_container_pt = 2\<rparr>]"
    "dropWhile (in_space 0x20000000 0x20000008) (valid_msg_tasks busy) = [0x20000010]"
    "min 255 (unat (msg_drop_number (stats busy (mem_stat busy)))
                        + used_hit 0x20000000 0x20000008 busy + luos_hits 0x20000000 0x20000008 busy
                        + msg_hits 0x20000000 0x20000008 busy) = 3"
    by (simp_all add: concrete_defs)
  ultimately show ?thesis using h by auto
qed

subsection \<open>What the reclaimer leaves unchanged\<close>

lemma keeps_cursor_refl [simp]: "keeps_cursor s s"
  by (simp add: keeps_cursor_def)

lemma keeps_cursor_trans: "keeps_cursor s s1 \<Longrightarrow> keeps_cursor s1 s2 \<Longrightarrow> keeps_cursor s s2"
  by (simp add: keeps_cursor_def)

lemma drop_le_refl [simp]: "drop_le s s"
  by (simp add: drop_le_def)

lemma drop_le_trans: "drop_le s s1 \<Longrightarrow> drop_le s1 s2 \<Longrightarrow> drop_le s s2"
  unfolding drop_le_def by (meson order_trans)

lemma slide_left_length: "slide_left xs b rm n = Inr ys \<Longrightarrow> length ys = length xs"
proof (induction xs b rm n rule: slide_left.induct)
  case (1 xs b rm n)
  from "1.prems" show ?case
    by (subst (asm) slide_left.simps) (auto split: if_splits dest: "1.IH")
qed

lemma count_drop_frame:
  "count_drop s = Inr s' \<Longrightarrow> keeps_cursor s s' \<and> drop_le s s'"
proof -
  assume a: "count_drop s = Inr s'"
  have "d < 0xFF \<Longrightarrow> d \<le> d + 1" for d :: u8
    by (simp add: word_less_nat_alt word_le_nat_alt unat_word_ariths)
  with a show ?thesis
    by (auto simp: count_drop_def keeps_cursor_def drop_le_def Let_def split: if_splits)
qed

lemma ClearLuosTask_frame:
  "MsgAlloc_ClearLuosTask c i s = Inr s' \<Longrightarrow> keeps_cursor s s' \<and> drop_le s s'"
  by (auto simp: MsgAlloc_ClearLuosTask_def and_then_def keeps_cursor_def drop_le_def
           split: if_splits sum.splits dest: slide_left_length)

lemma ClearMsgTask_frame:
  "MsgAlloc_ClearMsgTask c s = Inr s' \<Longrightarrow> keeps_cursor s s' \<and> drop_le s s'"
  by (auto simp: MsgAlloc_ClearMsgTask_def and_then_def keeps_cursor_def drop_le_def wr_def Let_def
           split: if_splits sum.splits dest: slide_left_length)

lemma ClearMsgSpace_luos_frame:
  "ClearMsgSpace_luos c lo hi s = Inr s' \<Longrightarrow> keeps_cursor s s' \<and> drop_le s s'"
proof (induction c lo hi s rule: ClearMsgSpace_luos.induct)
  case (1 c lo hi s)
  show ?case
  proof (cases "in_space lo hi (msg_pt (rd (luos_tasks s) (luos_tasks_behind s) 0))
                \<and> luos_tasks_stack_id s > 0")
    case False
    with "1.prems" show ?thesis by (subst (asm) ClearMsgSpace_luos.simps) auto
  next
    case True
    with "1.prems" obtain s1 s2 where
      st: "MsgAlloc_ClearLuosTask c 0 s = Inr s1" "count_drop s1 = Inr s2"
          "ClearMsgSpace_luos c lo hi s2 = Inr s'"
      by (subst (asm) ClearMsgSpace_luos.simps) (auto simp: and_then_def split: sum.splits)
    from "1.IH" [OF True st] ClearLuosTask_frame [OF st(1)] count_drop_frame [OF st(2)]
    show ?thesis by (blast intro: keeps_cursor_trans drop_le_trans)
  qed
qed

lemma ClearMsgSpace_msg_frame:
  "ClearMsgSpace_msg c lo hi s = Inr s' \<Longrightarrow> keeps_cursor s s' \<and> drop_le s s'"
proof (induction c lo hi s rule: ClearMsgSpace_msg.induct)
  case (1 c lo hi s)
  show ?case
  proof (cases "in_space lo hi (rd (msg_tasks s) (msg_tasks_behind s) 0)
                \<and> msg_tasks_stack_id s > 0")
    case False
    with "1.prems" show ?thesis by (subst (asm) ClearMsgSpace_msg.simps) auto
  next
    case True
    with "1.prems" obtain s1 s2 where
      st: "MsgAlloc_ClearMsgTask c s = Inr s1" "count_drop s1 = Inr s2"
          "ClearMsgSpace_msg c lo hi s2 = Inr s'"
      by (subst (asm) ClearMsgSpace_msg.simps) (auto simp: and_then_def split: sum.splits)
    from "1.IH" [OF True st] ClearMsgTask_frame [OF st(1)] count_drop_frame [OF st(2)]
    show ?thesis by (blast intro: keeps_cursor_trans drop_le_trans)
  qed
qed

lemma ClearMsgSpace_frame:
  "MsgAlloc_ClearMsgSpace c lo hi s = Inr (r, s') \<Longrightarrow> keeps_cursor s s' \<and> drop_le s s'"
proof -
  assume a: "MsgAlloc_ClearMsgSpace c lo hi s = Inr (r, s')"
  show ?thesis
  proof (cases "hi > buffer_last c")
    case True
    with a show ?thesis by (simp add: MsgAlloc_ClearMsgSpace_def)
  next
    case False
    with a obtain s1 s2 where
      st: "(if in_space lo hi (used_msg s) then count_drop (s\<lparr>used_msg := 0\<rparr>) else Inr s) = Inr s1"
          "ClearMsgSpace_luos c lo hi s1 = Inr s2" "ClearMsgSpace_msg c lo hi s2 = Inr s'"
      by (auto simp: MsgAlloc_ClearMsgSpace_def and_then_def split: sum.splits)
    have "keeps_cursor s s1 \<and> drop_le s s1"
    proof (cases "in_space lo hi (used_msg s)")
      case True
      with st(1) count_drop_frame [of "s\<lparr>used_msg := 0\<rparr>" s1] show ?thesis
        by (simp add: keeps_cursor_def drop_le_def)
    next
      case False
      with st(1) show ?thesis by simp
    qed
    with ClearMsgSpace_luos_frame [OF st(2)] ClearMsgSpace_msg_frame [OF st(3)]
    show ?thesis by (blast intro: keeps_cursor_trans drop_le_trans)
  qed
qed

subsection \<open>Initialisation and the transmit stack (C9)\<close>

text \<open>
  Claim C9. \<^verbatim>\<open>MsgAlloc_Init\<close> resets the reception cursor, both reception stacks, the
  header-copy pointer and \<^verbatim>\<open>used_msg\<close>, and leaves the transmit stack as it was: the
  array \<^verbatim>\<open>tx_tasks\<close> and the counter \<^verbatim>\<open>tx_tasks_stack_id\<close> keep their values.
\<close>

theorem Init_leaves_tx_tasks:
  "tx_tasks (MsgAlloc_Init c p s) = tx_tasks s
   \<and> tx_tasks_stack_id (MsgAlloc_Init c p s) = tx_tasks_stack_id s
   \<and> current_msg (MsgAlloc_Init c p s) = buffer c
   \<and> data_ptr (MsgAlloc_Init c p s) = buffer c
   \<and> data_end_estimation (MsgAlloc_Init c p s) = buffer c + of_nat (sizeof_header c) + 2
   \<and> msg_tasks_stack_id (MsgAlloc_Init c p s) = 0
   \<and> msg_tasks (MsgAlloc_Init c p s) = replicate (MAX_MSG_NB c) 0
   \<and> luos_tasks_stack_id (MsgAlloc_Init c p s) = 0
   \<and> luos_tasks (MsgAlloc_Init c p s) = replicate (MAX_MSG_NB c) \<lparr>msg_pt = 0, ll_container_pt = 0\<rparr>
   \<and> copy_task_pointer (MsgAlloc_Init c p s) = 0
   \<and> used_msg (MsgAlloc_Init c p s) = 0"
  by (simp add: MsgAlloc_Init_def Let_def)

subsection \<open>Failed pulls (C10)\<close>

lemma PullMsg_from_FAILED:
  "PullMsg_from c t out i s = Inr (FAILED, out', s') \<Longrightarrow> s' = s \<and> out' = out"
proof (induction c t out i s rule: PullMsg_from.induct)
  case (1 c t out i s)
  from "1.prems" show ?case
    by (subst (asm) PullMsg_from.simps)
       (auto simp: and_then_def Let_def split: if_splits sum.splits dest: "1.IH")
qed

lemma PullMsg_from_skip:
  assumes "\<forall>j. i \<le> j \<and> j < k \<longrightarrow> ll_container_pt (rd (luos_tasks s) (luos_tasks_behind s) j) \<noteq> t"
    and "i \<le> k" and "k \<le> unat (luos_tasks_stack_id s)"
  shows "PullMsg_from c t out i s = PullMsg_from c t out k s"
  using assms
proof (induction n \<equiv> "k - i" arbitrary: i)
  case 0
  then show ?case by simp
next
  case (Suc n)
  then have lt: "i < k" by simp
  with Suc.prems have "PullMsg_from c t out i s = PullMsg_from c t out (i + 1) s"
    by (subst PullMsg_from.simps) auto
  also have "\<dots> = PullMsg_from c t out k s"
    using Suc.hyps(2) Suc.prems lt by (intro Suc.hyps(1)) auto
  finally show ?case .
qed

lemma PullMsg_from_end:
  assumes "unat (luos_tasks_stack_id s) \<le> i"
  shows "PullMsg_from c t out i s = Inr (FAILED, out, s)"
  using assms by (subst PullMsg_from.simps) simp

text \<open>
  Claim C10. A pull or peek that returns \<^verbatim>\<open>FAILED\<close> has changed nothing: the state after
  the call is the state before it, and the out parameters hold what they held.
  \<^verbatim>\<open>MsgAlloc_PullMsgToInterpret\<close> fails so on an empty interpretation stack,
  \<^verbatim>\<open>MsgAlloc_PullMsg\<close> when no task in use belongs to the endpoint,
  \<^verbatim>\<open>MsgAlloc_PullMsgFromLuosTask\<close> when the index is not below the counter, and
  \<^verbatim>\<open>MsgAlloc_GetTxTask\<close> on an empty transmit stack; the four peek functions on the
  delivery stack fail in the same way.
\<close>

theorem failed_pull_changes_nothing:
  "(MsgAlloc_PullMsgToInterpret c out s = Inr (FAILED, out', s') \<longrightarrow> s' = s \<and> out' = out)
   \<and> (MsgAlloc_PullMsg c target out s = Inr (FAILED, out', s') \<longrightarrow> s' = s \<and> out' = out)
   \<and> (MsgAlloc_PullMsgFromLuosTask c i out s = Inr (FAILED, out', s') \<longrightarrow> s' = s \<and> out' = out)
   \<and> (MsgAlloc_GetTxTask c d n s = Inr (FAILED, d', n', s') \<longrightarrow> s' = s \<and> d' = d \<and> n' = n)
   \<and> (msg_tasks_stack_id s = 0 \<longrightarrow> MsgAlloc_PullMsgToInterpret c out s = Inr (FAILED, out, s))
   \<and> ((\<forall>j<unat (luos_tasks_stack_id s).
          ll_container_pt (rd (luos_tasks s) (luos_tasks_behind s) j) \<noteq> target)
        \<longrightarrow> MsgAlloc_PullMsg c target out s = Inr (FAILED, out, s))
   \<and> (\<not> i < luos_tasks_stack_id s \<longrightarrow> MsgAlloc_PullMsgFromLuosTask c i out s = Inr (FAILED, out, s))
   \<and> (tx_tasks_stack_id s = 0 \<and> 0 < MAX_MSG_NB c
        \<longrightarrow> MsgAlloc_GetTxTask c d n s = Inr (FAILED, d, n, s))
   \<and> (fst (MsgAlloc_LookAtLuosTask i out s) = FAILED
        \<longrightarrow> MsgAlloc_LookAtLuosTask i out s = (FAILED, out, s))
   \<and> (fst (MsgAlloc_GetLuosTaskCmd c i b s) = FAILED
        \<longrightarrow> MsgAlloc_GetLuosTaskCmd c i b s = (FAILED, b, s))
   \<and> (fst (MsgAlloc_GetLuosTaskSourceId c i n s) = FAILED
        \<longrightarrow> MsgAlloc_GetLuosTaskSourceId c i n s = (FAILED, n, s))
   \<and> (fst (MsgAlloc_GetLuosTaskSize c i n s) = FAILED
        \<longrightarrow> MsgAlloc_GetLuosTaskSize c i n s = (FAILED, n, s))"
proof -
  have a1: "MsgAlloc_PullMsgToInterpret c out s = Inr (FAILED, out', s') \<longrightarrow> s' = s \<and> out' = out"
    by (auto simp: MsgAlloc_PullMsgToInterpret_def and_then_def Let_def split: if_splits sum.splits)
  have a2: "MsgAlloc_PullMsg c target out s = Inr (FAILED, out', s') \<longrightarrow> s' = s \<and> out' = out"
    unfolding MsgAlloc_PullMsg_def using PullMsg_from_FAILED by blast
  have a3: "MsgAlloc_PullMsgFromLuosTask c i out s = Inr (FAILED, out', s') \<longrightarrow> s' = s \<and> out' = out"
    by (auto simp: MsgAlloc_PullMsgFromLuosTask_def and_then_def Let_def split: if_splits sum.splits)
  have a4: "MsgAlloc_GetTxTask c d n s = Inr (FAILED, d', n', s') \<longrightarrow> s' = s \<and> d' = d \<and> n' = n"
    by (auto simp: MsgAlloc_GetTxTask_def split: if_splits)
  have a5: "msg_tasks_stack_id s = 0 \<longrightarrow> MsgAlloc_PullMsgToInterpret c out s = Inr (FAILED, out, s)"
    by (simp add: MsgAlloc_PullMsgToInterpret_def)
  have a6: "(\<forall>j<unat (luos_tasks_stack_id s).
          ll_container_pt (rd (luos_tasks s) (luos_tasks_behind s) j) \<noteq> target)
        \<longrightarrow> MsgAlloc_PullMsg c target out s = Inr (FAILED, out, s)"
  proof
    assume "\<forall>j<unat (luos_tasks_stack_id s).
            ll_container_pt (rd (luos_tasks s) (luos_tasks_behind s) j) \<noteq> target"
    then have "PullMsg_from c target out 0 s = PullMsg_from c target out (unat (luos_tasks_stack_id s)) s"
      by (intro PullMsg_from_skip) auto
    then show "MsgAlloc_PullMsg c target out s = Inr (FAILED, out, s)"
      by (simp add: MsgAlloc_PullMsg_def PullMsg_from_end)
  qed
  have a7: "\<not> i < luos_tasks_stack_id s \<longrightarrow> MsgAlloc_PullMsgFromLuosTask c i out s = Inr (FAILED, out, s)"
    by (simp add: MsgAlloc_PullMsgFromLuosTask_def)
  have a8: "tx_tasks_stack_id s = 0 \<and> 0 < MAX_MSG_NB c
        \<longrightarrow> MsgAlloc_GetTxTask c d n s = Inr (FAILED, d, n, s)"
    by (simp add: MsgAlloc_GetTxTask_def)
  have a9: "fst (MsgAlloc_LookAtLuosTask i out s) = FAILED
        \<longrightarrow> MsgAlloc_LookAtLuosTask i out s = (FAILED, out, s)"
    by (simp add: MsgAlloc_LookAtLuosTask_def)
  have a10: "fst (MsgAlloc_GetLuosTaskCmd c i b s) = FAILED
        \<longrightarrow> MsgAlloc_GetLuosTaskCmd c i b s = (FAILED, b, s)"
    by (simp add: MsgAlloc_GetLuosTaskCmd_def)
  have a11: "fst (MsgAlloc_GetLuosTaskSourceId c i n s) = FAILED
        \<longrightarrow> MsgAlloc_GetLuosTaskSourceId c i n s = (FAILED, n, s)"
    by (simp add: MsgAlloc_GetLuosTaskSourceId_def)
  have a12: "fst (MsgAlloc_GetLuosTaskSize c i n s) = FAILED
        \<longrightarrow> MsgAlloc_GetLuosTaskSize c i n s = (FAILED, n, s)"
    by (simp add: MsgAlloc_GetLuosTaskSize_def)
  show ?thesis
    by (intro conjI) (rule a1 a2 a3 a4 a5 a6 a7 a8 a9 a10 a11 a12)+
qed

theorem failed_pull_changes_nothing_witness:
  "msg_tasks_stack_id start = 0
   \<and> map ll_container_pt (valid_luos_tasks busy) = [1, 2]
   \<and> \<not> 2 < luos_tasks_stack_id busy
   \<and> tx_tasks_stack_id busy = 0 \<and> 0 < MAX_MSG_NB cfg
   \<and> MsgAlloc_PullMsgToInterpret cfg 7 start = Inr (FAILED, 7, start)
   \<and> MsgAlloc_PullMsg cfg 3 7 busy = Inr (FAILED, 7, busy)
   \<and> MsgAlloc_PullMsgFromLuosTask cfg 2 7 busy = Inr (FAILED, 7, busy)
   \<and> MsgAlloc_GetTxTask cfg 7 8 busy = Inr (FAILED, 7, 8, busy)
   \<and> fst (MsgAlloc_LookAtLuosTask 2 7 busy) = FAILED
   \<and> MsgAlloc_LookAtLuosTask 2 7 busy = (FAILED, 7, busy)
   \<and> fst (MsgAlloc_GetLuosTaskCmd cfg 2 9 busy) = FAILED
   \<and> MsgAlloc_GetLuosTaskCmd cfg 2 9 busy = (FAILED, 9, busy)
   \<and> fst (MsgAlloc_GetLuosTaskSourceId cfg 2 8 busy) = FAILED
   \<and> MsgAlloc_GetLuosTaskSourceId cfg 2 8 busy = (FAILED, 8, busy)
   \<and> fst (MsgAlloc_GetLuosTaskSize cfg 2 8 busy) = FAILED
   \<and> MsgAlloc_GetLuosTaskSize cfg 2 8 busy = (FAILED, 8, busy)"
proof -
  have h1: "msg_tasks_stack_id start = 0"
    by (simp add: concrete_defs)
  have h2: "\<forall>j<unat (luos_tasks_stack_id busy).
          ll_container_pt (rd (luos_tasks busy) (luos_tasks_behind busy) j) \<noteq> 3"
  proof (intro allI impI)
    fix j
    assume "j < unat (luos_tasks_stack_id busy)"
    then have "j < 2" by (simp add: concrete_defs)
    then have "j = 0 \<or> j = 1" by arith
    then show "ll_container_pt (rd (luos_tasks busy) (luos_tasks_behind busy) j) \<noteq> 3"
      by (auto simp: concrete_defs rd_def)
  qed
  have h3: "\<not> 2 < luos_tasks_stack_id busy"
    by (simp add: concrete_defs)
  have h4: "tx_tasks_stack_id busy = 0 \<and> 0 < MAX_MSG_NB cfg"
    by (simp add: concrete_defs)
  from failed_pull_changes_nothing [of cfg 7 start 7 start 3 2 7 8 7 8] h1
  have c1: "MsgAlloc_PullMsgToInterpret cfg 7 start = Inr (FAILED, 7, start)" by blast
  from failed_pull_changes_nothing [of cfg 7 busy 7 busy 3 2 7 8 7 8] h2 h3 h4
  have c2: "MsgAlloc_PullMsg cfg 3 7 busy = Inr (FAILED, 7, busy)"
    "MsgAlloc_PullMsgFromLuosTask cfg 2 7 busy = Inr (FAILED, 7, busy)"
    "MsgAlloc_GetTxTask cfg 7 8 busy = Inr (FAILED, 7, 8, busy)" by blast+
  have h5: "fst (MsgAlloc_LookAtLuosTask 2 7 busy) = FAILED"
    "fst (MsgAlloc_GetLuosTaskCmd cfg 2 9 busy) = FAILED"
    "fst (MsgAlloc_GetLuosTaskSourceId cfg 2 8 busy) = FAILED"
    "fst (MsgAlloc_GetLuosTaskSize cfg 2 8 busy) = FAILED"
    using h3 by (simp_all add: MsgAlloc_LookAtLuosTask_def MsgAlloc_GetLuosTaskCmd_def
                   MsgAlloc_GetLuosTaskSourceId_def MsgAlloc_GetLuosTaskSize_def)
  from failed_pull_changes_nothing [of cfg 7 busy 7 busy 3 2 7 8 7 8 9] h5
  have c3: "MsgAlloc_LookAtLuosTask 2 7 busy = (FAILED, 7, busy)"
    "MsgAlloc_GetLuosTaskCmd cfg 2 9 busy = (FAILED, 9, busy)"
    "MsgAlloc_GetLuosTaskSourceId cfg 2 8 busy = (FAILED, 8, busy)"
    "MsgAlloc_GetLuosTaskSize cfg 2 8 busy = (FAILED, 8, busy)" by blast+
  have h6: "map ll_container_pt (valid_luos_tasks busy) = [1, 2]"
    by (simp add: concrete_defs)
  from h1 h3 h4 h5 h6 c1 c2 c3 show ?thesis by blast
qed

subsection \<open>The end of a frame (C4)\<close>

lemma ClearMsgSpace_wf:
  assumes "wf_state c s"
  shows "\<exists>r s'. MsgAlloc_ClearMsgSpace c lo hi s = Inr (r, s') \<and> wf_state c s'"
proof (cases "hi > buffer_last c")
  case True
  with assms show ?thesis by (simp add: MsgAlloc_ClearMsgSpace_def)
next
  case False
  from assms have a: "stacks_ok c s" "mem_stat s \<noteq> 0" "free_slots_zero s"
    "msg_tasks_in_buffer c s" "0 < MAX_MSG_NB c"
    by (simp_all add: wf_state_def)
  from ClearMsgSpace_result [OF a(1,2) False, of lo] a(3) obtain ls ms where
    r: "MsgAlloc_ClearMsgSpace c lo hi s
           = Inr (SUCCEED,
                  dropped (used_hit lo hi s + luos_hits lo hi s + msg_hits lo hi s)
                    (s\<lparr>used_msg := (if in_space lo hi (used_msg s) then 0 else used_msg s),
                       luos_tasks := ls,
                       luos_tasks_stack_id := luos_tasks_stack_id s - of_nat (luos_hits lo hi s),
                       msg_tasks := ms,
                       msg_tasks_stack_id := msg_tasks_stack_id s - of_nat (msg_hits lo hi s)\<rparr>))"
       "length ls = MAX_MSG_NB c" "length ms = MAX_MSG_NB c"
       "take (unat (msg_tasks_stack_id s) - msg_hits lo hi s) ms
             = dropWhile (in_space lo hi) (valid_msg_tasks s)"
       "\<forall>i<MAX_MSG_NB c. unat (msg_tasks_stack_id s) - msg_hits lo hi s \<le> i \<longrightarrow> ms ! i = 0"
    by blast
  let ?s' = "dropped (used_hit lo hi s + luos_hits lo hi s + msg_hits lo hi s)
                    (s\<lparr>used_msg := (if in_space lo hi (used_msg s) then 0 else used_msg s),
                       luos_tasks := ls,
                       luos_tasks_stack_id := luos_tasks_stack_id s - of_nat (luos_hits lo hi s),
                       msg_tasks := ms,
                       msg_tasks_stack_id := msg_tasks_stack_id s - of_nat (msg_hits lo hi s)\<rparr>)"
  have "stacks_ok c ?s'"
    using a(1) r(2,3) luos_hits_le [of lo hi s] msg_hits_le [of lo hi s]
    by (auto simp: stacks_ok_def unat_sub_of_nat)
  moreover have "free_slots_zero ?s'"
    using r(3,5) msg_hits_le [of lo hi s] by (simp add: free_slots_zero_def unat_sub_of_nat)
  moreover have "valid_msg_tasks ?s' = dropWhile (in_space lo hi) (valid_msg_tasks s)"
    using r(4) msg_hits_le [of lo hi s] by (simp add: valid_msg_tasks_def unat_sub_of_nat)
  then have "msg_tasks_in_buffer c ?s'"
    using a(4) by (auto simp: msg_tasks_in_buffer_def dest: set_dropWhileD)
  ultimately have "wf_state c ?s'"
    using a(2,5) by (simp add: wf_state_def)
  with r(1) show ?thesis by blast
qed

lemma set_tl_subset: "x \<in> set (tl xs) \<Longrightarrow> x \<in> set xs"
  by (cases xs) simp_all

lemma ClearMsgTask_wf:
  assumes "wf_state c s" and "msg_tasks_stack_id s \<noteq> 0"
  shows "\<exists>s'. MsgAlloc_ClearMsgTask c s = Inr s' \<and> wf_state c s'
              \<and> unat (msg_tasks_stack_id s') = unat (msg_tasks_stack_id s) - 1"
proof -
  from assms have a: "stacks_ok c s" "mem_stat s \<noteq> 0" "free_slots_zero s"
    "msg_tasks_in_buffer c s" "0 < MAX_MSG_NB c"
    by (simp_all add: wf_state_def)
  from ClearMsgTask_pop [OF a(1) assms(2)] obtain xs where
    xs: "MsgAlloc_ClearMsgTask c s
              = Inr (s\<lparr>msg_tasks := xs, msg_tasks_stack_id := msg_tasks_stack_id s - 1\<rparr>)"
        "length xs = MAX_MSG_NB c"
        "take (unat (msg_tasks_stack_id s - 1)) xs = tl (valid_msg_tasks s)"
        "\<forall>i<MAX_MSG_NB c. unat (msg_tasks_stack_id s) \<le> i \<longrightarrow> xs ! i = msg_tasks s ! i"
        "xs ! unat (msg_tasks_stack_id s - 1) = 0"
    by blast
  let ?s' = "s\<lparr>msg_tasks := xs, msg_tasks_stack_id := msg_tasks_stack_id s - 1\<rparr>"
  have m: "unat (msg_tasks_stack_id s - 1) = unat (msg_tasks_stack_id s) - 1"
    using assms(2) by (simp add: unat_minus_one)
  have "stacks_ok c ?s'"
    using a(1) xs(2) m by (auto simp: stacks_ok_def)
  moreover have "free_slots_zero ?s'"
    unfolding free_slots_zero_def
  proof (intro allI impI)
    fix i assume i: "i < length (msg_tasks ?s')" "unat (msg_tasks_stack_id ?s') \<le> i"
    show "msg_tasks ?s' ! i = 0"
    proof (cases "i = unat (msg_tasks_stack_id s) - 1")
      case True
      then show ?thesis using xs(5) m by simp
    next
      case False
      with i m have "unat (msg_tasks_stack_id s) \<le> i" by simp
      with i xs(2,4) a(1,3) show ?thesis
        by (simp add: free_slots_zero_def stacks_ok_def)
    qed
  qed
  moreover have "msg_tasks_in_buffer c ?s'"
    using a(4) xs(3) by (auto simp: msg_tasks_in_buffer_def valid_msg_tasks_def dest: set_tl_subset)
  ultimately have "wf_state c ?s'"
    using a(2,5) by (simp add: wf_state_def)
  with xs(1) m show ?thesis by simp
qed

lemma wf_state_dropped [simp]: "wf_state c (dropped k s) = wf_state c s"
  by (simp add: wf_state_def free_slots_zero_def msg_tasks_in_buffer_def valid_msg_tasks_def)

lemma EndMsg_returns:
  assumes "wf_state c s"
  shows "\<exists>s'. MsgAlloc_EndMsg c s = Inr s'"
proof -
  from ClearMsgSpace_wf [OF assms] obtain r1 s1 where
    s1: "MsgAlloc_ClearMsgSpace c (current_msg s) (data_ptr s) s = Inr (r1, s1)" "wf_state c s1"
    by blast
  have "\<exists>s2. (if unat (msg_tasks_stack_id s1) = MAX_MSG_NB c
               then and_then (MsgAlloc_ClearMsgTask c s1) count_drop
               else Inr s1) = Inr s2 \<and> wf_state c s2 \<and> unat (msg_tasks_stack_id s2) < MAX_MSG_NB c"
  proof (cases "unat (msg_tasks_stack_id s1) = MAX_MSG_NB c")
    case True
    with s1(2) have "msg_tasks_stack_id s1 \<noteq> 0" by (auto simp: wf_state_def)
    from ClearMsgTask_wf [OF s1(2) this] obtain t where
      t: "MsgAlloc_ClearMsgTask c s1 = Inr t" "wf_state c t"
         "unat (msg_tasks_stack_id t) = unat (msg_tasks_stack_id s1) - 1"
      by blast
    then have "count_drop t = Inr (dropped 1 t)"
      by (intro count_drop_dropped) (simp add: wf_state_def)
    moreover have "wf_state c (dropped 1 t)"
      using t(2) by simp
    moreover have "unat (msg_tasks_stack_id (dropped 1 t)) < MAX_MSG_NB c"
      using t(3) True s1(2) by (simp add: wf_state_def)
    ultimately show ?thesis
      using t(1) True by (intro exI [of _ "dropped 1 t"]) (simp add: and_then_def)
  next
    case False
    with s1(2) show ?thesis by (auto simp: wf_state_def stacks_ok_def)
  qed
  then obtain s2 where
    s2: "(if unat (msg_tasks_stack_id s1) = MAX_MSG_NB c
               then and_then (MsgAlloc_ClearMsgTask c s1) count_drop
               else Inr s1) = Inr s2" "wf_state c s2" "unat (msg_tasks_stack_id s2) < MAX_MSG_NB c"
    by blast
  from s2(2,3) have len: "length (msg_tasks s2) = MAX_MSG_NB c"
    and z: "rd (msg_tasks s2) (msg_tasks_behind s2) (unat (msg_tasks_stack_id s2)) = 0"
    by (auto simp: wf_state_def stacks_ok_def free_slots_zero_def rd_def)
  have inb: "rd (msg_tasks s2) (msg_tasks_behind s2) 0 \<ge> buffer c
             \<and> rd (msg_tasks s2) (msg_tasks_behind s2) 0 < buffer_end c"
    if "msg_tasks_stack_id s2 > 0"
  proof -
    from s2(2) that have "rd (msg_tasks s2) (msg_tasks_behind s2) 0 \<in> set (valid_msg_tasks s2)"
      using hd_valid_msg [of c s2] by (metis list.set_intros(1) wf_state_def)
    with s2(2) show ?thesis by (simp add: wf_state_def msg_tasks_in_buffer_def)
  qed
  let ?s3 = "next_msg c (s2\<lparr>msg_tasks := (msg_tasks s2)[unat (msg_tasks_stack_id s2) := current_msg s2],
                              msg_tasks_stack_id := msg_tasks_stack_id s2 + 1\<rparr>)"
  have "unat (msg_tasks_stack_id s2 + 1) \<le> unat (msg_tasks_stack_id s2) + 1"
    by (simp add: unat_word_ariths)
  with s2(2,3) have ok3: "stacks_ok c ?s3" "mem_stat ?s3 \<noteq> 0"
    by (auto simp: wf_state_def stacks_ok_def next_msg_def Let_def)
  have "\<exists>r4 s4. MsgAlloc_ClearMsgSpace c (current_msg ?s3)
                    (current_msg ?s3 + of_nat (sizeof_header c) + 2) ?s3 = Inr (r4, s4)"
  proof (cases "current_msg ?s3 + of_nat (sizeof_header c) + 2 > buffer_last c")
    case True
    then show ?thesis by (simp add: MsgAlloc_ClearMsgSpace_def)
  next
    case False
    from ClearMsgSpace_result [OF ok3 False] show ?thesis by blast
  qed
  then obtain r4 s4 where
    s4: "MsgAlloc_ClearMsgSpace c (current_msg ?s3)
                    (current_msg ?s3 + of_nat (sizeof_header c) + 2) ?s3 = Inr (r4, s4)"
    by blast
  have "MsgAlloc_EndMsg c s = Inr s4"
    unfolding MsgAlloc_EndMsg_def
    using s1(1) s2(1,3) z inb len s4
    by (simp add: and_then_def wr_def Let_def)
  then show ?thesis by blast
qed

lemma EndMsg_cursor_eq:
  assumes "MsgAlloc_EndMsg c s = Inr s'"
  shows "data_ptr s' = EndMsg_cursor c s \<and> current_msg s' = data_ptr s'
         \<and> data_end_estimation s' = current_msg s' + of_nat (sizeof_header c) + 2"
proof -
  from assms obtain r1 s1 s2 xs r4 where
    st: "MsgAlloc_ClearMsgSpace c (current_msg s) (data_ptr s) s = Inr (r1, s1)"
        "(if unat (msg_tasks_stack_id s1) = MAX_MSG_NB c
               then and_then (MsgAlloc_ClearMsgTask c s1) count_drop
               else Inr s1) = Inr s2"
        "MsgAlloc_ClearMsgSpace c
           (current_msg (next_msg c (s2\<lparr>msg_tasks := xs, msg_tasks_stack_id := msg_tasks_stack_id s2 + 1\<rparr>)))
           (current_msg (next_msg c (s2\<lparr>msg_tasks := xs, msg_tasks_stack_id := msg_tasks_stack_id s2 + 1\<rparr>))
              + of_nat (sizeof_header c) + 2)
           (next_msg c (s2\<lparr>msg_tasks := xs, msg_tasks_stack_id := msg_tasks_stack_id s2 + 1\<rparr>))
         = Inr (r4, s')"
    unfolding MsgAlloc_EndMsg_def
    by (auto simp: and_then_def Let_def split: sum.splits if_splits prod.splits)
  have k1: "keeps_cursor s s1" using ClearMsgSpace_frame [OF st(1)] by simp
  have k2: "keeps_cursor s1 s2"
  proof (cases "unat (msg_tasks_stack_id s1) = MAX_MSG_NB c")
    case True
    with st(2) obtain t where "MsgAlloc_ClearMsgTask c s1 = Inr t" "count_drop t = Inr s2"
      by (auto simp: and_then_def split: sum.splits)
    then show ?thesis
      using ClearMsgTask_frame count_drop_frame keeps_cursor_trans by blast
  next
    case False
    with st(2) show ?thesis by simp
  qed
  let ?s3 = "next_msg c (s2\<lparr>msg_tasks := xs, msg_tasks_stack_id := msg_tasks_stack_id s2 + 1\<rparr>)"
  have k4: "keeps_cursor ?s3 s'" using ClearMsgSpace_frame [OF st(3)] by simp
  have "data_ptr s2 = data_ptr s" "mem s2 = mem s"
    using k1 k2 by (simp_all add: keeps_cursor_def)
  then have "data_ptr ?s3 = EndMsg_cursor c s" "current_msg ?s3 = data_ptr ?s3"
    "data_end_estimation ?s3 = current_msg ?s3 + of_nat (sizeof_header c) + 2"
    by (simp_all add: next_msg_def EndMsg_cursor_def MsgAlloc_DoWeHaveSpace_def Let_def even_iff_mod_2_eq_zero)
  with k4 show ?thesis by (simp add: keeps_cursor_def)
qed

text \<open>
  Claim C4. When \<^verbatim>\<open>MsgAlloc_EndMsg\<close> returns, the cursor has been advanced as follows:
  \<^verbatim>\<open>data_ptr\<close> is decreased by the two CRC bytes; if \<^verbatim>\<open>data_ptr + sizeof(header_t) + 2\<close>
  lies past the last byte of the buffer it becomes the start of the buffer; otherwise it
  is increased by one exactly when the byte stored at \<^verbatim>\<open>*data_ptr\<close> is even (the value,
  not the address); \<^verbatim>\<open>current_msg\<close> is the new \<^verbatim>\<open>data_ptr\<close> and
  \<^verbatim>\<open>data_end_estimation\<close> is \<^verbatim>\<open>current_msg + sizeof(header_t) + 2\<close>. In every state in
  which the stacks are well formed the call does return.
\<close>

theorem EndMsg_advances_cursor:
  "(MsgAlloc_EndMsg c s = Inr s' \<longrightarrow>
      data_ptr s' =
        (if data_ptr s - 2 + of_nat (sizeof_header c) + 2 > buffer_last c then buffer c
         else if even (unat (mem s (data_ptr s - 2))) then data_ptr s - 2 + 1
         else data_ptr s - 2)
      \<and> current_msg s' = data_ptr s'
      \<and> data_end_estimation s' = current_msg s' + of_nat (sizeof_header c) + 2)
   \<and> (wf_state c s \<longrightarrow> (\<exists>s'. MsgAlloc_EndMsg c s = Inr s'))"
  using EndMsg_cursor_eq [of c s s'] EndMsg_returns [of c s]
  by (simp add: EndMsg_cursor_def)

lemma wf_state_busy: "wf_state cfg busy"
proof -
  have "free_slots_zero busy"
    unfolding free_slots_zero_def
  proof (intro allI impI)
    fix i assume "i < length (msg_tasks busy)" "unat (msg_tasks_stack_id busy) \<le> i"
    then have "i = 2 \<or> i = 3" by (simp add: concrete_defs) arith
    then show "msg_tasks busy ! i = 0" by (auto simp: concrete_defs)
  qed
  moreover have "msg_tasks_in_buffer cfg busy"
    by (simp add: msg_tasks_in_buffer_def concrete_defs)
  moreover have "stacks_ok cfg busy" "mem_stat busy \<noteq> 0" "0 < MAX_MSG_NB cfg"
    by (simp_all add: concrete_defs)
  ultimately show ?thesis by (simp add: wf_state_def)
qed

theorem EndMsg_advances_cursor_witness:
  "wf_state cfg ending \<and>
   (\<exists>s'. MsgAlloc_EndMsg cfg ending = Inr s' \<and> data_ptr s' = 0x2000002C
        \<and> current_msg s' = 0x2000002C \<and> data_end_estimation s' = 0x20000035)"
proof -
  have h: "wf_state cfg ending"
    using wf_state_busy
    by (simp add: ending_def wf_state_def stacks_ok_def free_slots_zero_def
                  msg_tasks_in_buffer_def valid_msg_tasks_def)
  with EndMsg_advances_cursor [of cfg ending] obtain s' where
    s': "MsgAlloc_EndMsg cfg ending = Inr s'" by blast
  with EndMsg_advances_cursor [of cfg ending s'] have
    "data_ptr s' =
        (if data_ptr ending - 2 + of_nat (sizeof_header cfg) + 2 > buffer_last cfg then buffer cfg
         else if even (unat (mem ending (data_ptr ending - 2))) then data_ptr ending - 2 + 1
         else data_ptr ending - 2)"
    "current_msg s' = data_ptr s'"
    "data_end_estimation s' = current_msg s' + of_nat (sizeof_header cfg) + 2"
    by blast+
  then have "data_ptr s' = 0x2000002C \<and> current_msg s' = 0x2000002C
             \<and> data_end_estimation s' = 0x20000035"
    by (simp add: ending_def concrete_defs)
  with h s' show ?thesis by blast
qed

subsection \<open>The end of a header (C3)\<close>

lemma DoWeHaveSpace_FAILED: "MsgAlloc_DoWeHaveSpace c x = FAILED \<longleftrightarrow> x > buffer_last c"
  by (simp add: MsgAlloc_DoWeHaveSpace_def)

lemma count_drop_Inr: "count_drop s = Inr s' \<Longrightarrow> s' = dropped 1 s"
proof -
  assume a: "count_drop s = Inr s'"
  then have "mem_stat s \<noteq> 0" by (auto simp: count_drop_def split: if_splits)
  from count_drop_dropped [OF this] a show ?thesis by simp
qed

lemma ValidHeader_wrap:
  "frame_end c (current_msg s) data_size > buffer_last c \<Longrightarrow>
   MsgAlloc_ValidHeader c 1 data_size s =
     (if buffer c \<le> used_msg s \<and> used_msg s \<le> frame_end c (buffer c) data_size
      then count_drop (s\<lparr>copy_task_pointer := current_msg s, current_msg := buffer c,
                    data_ptr := buffer c + of_nat (sizeof_header c),
                    data_end_estimation := frame_end c (buffer c) data_size, used_msg := 0\<rparr>)
      else Inr (s\<lparr>copy_task_pointer := current_msg s, current_msg := buffer c,
                    data_ptr := buffer c + of_nat (sizeof_header c),
                    data_end_estimation := frame_end c (buffer c) data_size\<rparr>))"
  by (simp add: MsgAlloc_ValidHeader_def DoWeHaveSpace_FAILED Let_def)

lemma ValidHeader_nowrap:
  "\<not> frame_end c (current_msg s) data_size > buffer_last c \<Longrightarrow>
   MsgAlloc_ValidHeader c 1 data_size s =
     (if current_msg s \<le> used_msg s \<and> used_msg s \<le> frame_end c (current_msg s) data_size
      then count_drop (s\<lparr>data_end_estimation := frame_end c (current_msg s) data_size, used_msg := 0\<rparr>)
      else Inr (s\<lparr>data_end_estimation := frame_end c (current_msg s) data_size\<rparr>))"
  by (simp add: MsgAlloc_ValidHeader_def DoWeHaveSpace_FAILED Let_def)

text \<open>
  Claim C3. \<^verbatim>\<open>MsgAlloc_ValidHeader(valid, data_size)\<close> with \<^verbatim>\<open>valid == true\<close>: when the frame
  end \<^verbatim>\<open>current_msg + sizeof(header_t) + data_size + 2\<close> lies past the last byte of the
  buffer, the header-copy pointer gets the old \<^verbatim>\<open>current_msg\<close>, \<^verbatim>\<open>current_msg\<close> becomes
  the start of the buffer and \<^verbatim>\<open>data_ptr\<close> the byte after a header there (otherwise the
  three keep their values); \<^verbatim>\<open>data_end_estimation\<close> is the frame end computed from the
  new \<^verbatim>\<open>current_msg\<close>; \<^verbatim>\<open>used_msg\<close> is nulled and the drop counter incremented (up to
  255) exactly when \<^verbatim>\<open>used_msg\<close> lies between the new \<^verbatim>\<open>current_msg\<close> and that end. With
  any other value of \<^verbatim>\<open>valid\<close> only \<^verbatim>\<open>data_ptr\<close> changes: it is reset to
  \<^verbatim>\<open>current_msg\<close>. With the statistics pointer set the call returns.
\<close>

theorem ValidHeader_prepares:
  "(valid = 1 \<and> MsgAlloc_ValidHeader c valid data_size s = Inr s' \<longrightarrow>
      (if frame_end c (current_msg s) data_size > buffer_last c
       then copy_task_pointer s' = current_msg s \<and> current_msg s' = buffer c
            \<and> data_ptr s' = buffer c + of_nat (sizeof_header c)
       else copy_task_pointer s' = copy_task_pointer s \<and> current_msg s' = current_msg s
            \<and> data_ptr s' = data_ptr s)
      \<and> data_end_estimation s' = current_msg s' + of_nat (sizeof_header c) + ucast data_size + 2
      \<and> (if current_msg s' \<le> used_msg s \<and> used_msg s \<le> data_end_estimation s'
         then used_msg s' = 0
              \<and> msg_drop_number (stats s' (mem_stat s'))
                  = sat_add (msg_drop_number (stats s (mem_stat s))) 1
         else used_msg s' = used_msg s \<and> stats s' = stats s))
   \<and> (valid \<noteq> 1 \<longrightarrow> MsgAlloc_ValidHeader c valid data_size s = Inr (s\<lparr>data_ptr := current_msg s\<rparr>))
   \<and> (valid = 1 \<and> mem_stat s \<noteq> 0 \<longrightarrow> (\<exists>s'. MsgAlloc_ValidHeader c valid data_size s = Inr s'))"
proof -
  have a: "valid = 1 \<and> MsgAlloc_ValidHeader c valid data_size s = Inr s' \<longrightarrow>
      (if frame_end c (current_msg s) data_size > buffer_last c
       then copy_task_pointer s' = current_msg s \<and> current_msg s' = buffer c
            \<and> data_ptr s' = buffer c + of_nat (sizeof_header c)
       else copy_task_pointer s' = copy_task_pointer s \<and> current_msg s' = current_msg s
            \<and> data_ptr s' = data_ptr s)
      \<and> data_end_estimation s' = current_msg s' + of_nat (sizeof_header c) + ucast data_size + 2
      \<and> (if current_msg s' \<le> used_msg s \<and> used_msg s \<le> data_end_estimation s'
         then used_msg s' = 0
              \<and> msg_drop_number (stats s' (mem_stat s'))
                  = sat_add (msg_drop_number (stats s (mem_stat s))) 1
         else used_msg s' = used_msg s \<and> stats s' = stats s)"
  proof (intro impI, elim conjE)
    assume v: "valid = 1" and r: "MsgAlloc_ValidHeader c valid data_size s = Inr s'"
    show "(if frame_end c (current_msg s) data_size > buffer_last c
       then copy_task_pointer s' = current_msg s \<and> current_msg s' = buffer c
            \<and> data_ptr s' = buffer c + of_nat (sizeof_header c)
       else copy_task_pointer s' = copy_task_pointer s \<and> current_msg s' = current_msg s
            \<and> data_ptr s' = data_ptr s)
      \<and> data_end_estimation s' = current_msg s' + of_nat (sizeof_header c) + ucast data_size + 2
      \<and> (if current_msg s' \<le> used_msg s \<and> used_msg s \<le> data_end_estimation s'
         then used_msg s' = 0
              \<and> msg_drop_number (stats s' (mem_stat s'))
                  = sat_add (msg_drop_number (stats s (mem_stat s))) 1
         else used_msg s' = used_msg s \<and> stats s' = stats s)"
    proof (cases "frame_end c (current_msg s) data_size > buffer_last c")
      case True
      let ?s2 = "s\<lparr>copy_task_pointer := current_msg s, current_msg := buffer c,
                    data_ptr := buffer c + of_nat (sizeof_header c),
                    data_end_estimation := frame_end c (buffer c) data_size\<rparr>"
      show ?thesis
      proof (cases "buffer c \<le> used_msg s \<and> used_msg s \<le> frame_end c (buffer c) data_size")
        case hit: True
        with True v r have "count_drop (?s2\<lparr>used_msg := 0\<rparr>) = Inr s'"
          by (simp add: ValidHeader_wrap)
        then have "s' = dropped 1 (?s2\<lparr>used_msg := 0\<rparr>)" by (rule count_drop_Inr)
        with True hit show ?thesis by (auto simp: frame_end_def dropped_def)
      next
        case miss: False
        with True v r have "s' = ?s2" by (simp add: ValidHeader_wrap)
        with True miss show ?thesis by (auto simp: frame_end_def)
      qed
    next
      case False
      let ?s2 = "s\<lparr>data_end_estimation := frame_end c (current_msg s) data_size\<rparr>"
      show ?thesis
      proof (cases "current_msg s \<le> used_msg s \<and> used_msg s \<le> frame_end c (current_msg s) data_size")
        case hit: True
        with False v r have "count_drop (?s2\<lparr>used_msg := 0\<rparr>) = Inr s'"
          by (simp add: ValidHeader_nowrap)
        then have "s' = dropped 1 (?s2\<lparr>used_msg := 0\<rparr>)" by (rule count_drop_Inr)
        with False hit show ?thesis by (auto simp: frame_end_def dropped_def)
      next
        case miss: False
        with False v r have "s' = ?s2" by (simp add: ValidHeader_nowrap)
        with False miss show ?thesis by (auto simp: frame_end_def)
      qed
    qed
  qed
  have b: "valid \<noteq> 1 \<longrightarrow> MsgAlloc_ValidHeader c valid data_size s = Inr (s\<lparr>data_ptr := current_msg s\<rparr>)"
    by (simp add: MsgAlloc_ValidHeader_def)
  have d: "valid = 1 \<and> mem_stat s \<noteq> 0 \<longrightarrow> (\<exists>s'. MsgAlloc_ValidHeader c valid data_size s = Inr s')"
    by (simp add: MsgAlloc_ValidHeader_def Let_def count_drop_def)
  from a b d show ?thesis by (intro conjI)
qed

theorem ValidHeader_prepares_witness:
  "(1 :: u8) = 1 \<and> mem_stat tail \<noteq> 0 \<and> (0 :: u8) \<noteq> 1 \<and>
   (\<exists>s'. MsgAlloc_ValidHeader cfg 1 16 tail = Inr s'
        \<and> copy_task_pointer s' = 0x20000030 \<and> current_msg s' = 0x20000000
        \<and> data_ptr s' = 0x20000007 \<and> data_end_estimation s' = 0x20000019
        \<and> used_msg s' = 0 \<and> msg_drop_number (stats s' (mem_stat s')) = 1)
   \<and> MsgAlloc_ValidHeader cfg 0 16 tail = Inr (tail\<lparr>data_ptr := current_msg tail\<rparr>)"
proof -
  have h: "(1 :: u8) = 1" "mem_stat tail \<noteq> 0" "(0 :: u8) \<noteq> 1"
    by (simp_all add: tail_def concrete_defs)
  with ValidHeader_prepares [of 1 cfg 16 tail] obtain s' where
    s': "MsgAlloc_ValidHeader cfg 1 16 tail = Inr s'" by blast
  have f: "frame_end cfg (current_msg tail) 16 > buffer_last cfg"
    by (simp add: frame_end_def tail_def concrete_defs)
  from ValidHeader_prepares [of 1 cfg 16 tail s'] s' f have
    c1: "copy_task_pointer s' = current_msg tail" "current_msg s' = buffer cfg"
        "data_ptr s' = buffer cfg + of_nat (sizeof_header cfg)"
        "data_end_estimation s' = current_msg s' + of_nat (sizeof_header cfg) + ucast (16 :: u16) + 2"
    and c2: "if current_msg s' \<le> used_msg tail \<and> used_msg tail \<le> data_end_estimation s'
         then used_msg s' = 0
              \<and> msg_drop_number (stats s' (mem_stat s'))
                  = sat_add (msg_drop_number (stats tail (mem_stat tail))) 1
         else used_msg s' = used_msg tail \<and> stats s' = stats tail"
    by simp_all
  from c1 have e1: "copy_task_pointer s' = 0x20000030" "current_msg s' = 0x20000000"
        "data_ptr s' = 0x20000007" "data_end_estimation s' = 0x20000019"
    by (simp_all add: tail_def concrete_defs)
  with c2 have e2: "used_msg s' = 0" "msg_drop_number (stats s' (mem_stat s')) = 1"
    by (simp_all add: tail_def concrete_defs sat_add_def)
  from ValidHeader_prepares [of 0 cfg 16 tail] h(3)
  have e3: "MsgAlloc_ValidHeader cfg 0 16 tail = Inr (tail\<lparr>data_ptr := current_msg tail\<rparr>)"
    by blast
  from h s' e1 e2 e3 show ?thesis by blast
qed

subsection \<open>Allocation and pull on the delivery stack (C7)\<close>

lemma PullMsg_none:
  assumes "\<forall>j<unat (luos_tasks_stack_id s).
             ll_container_pt (rd (luos_tasks s) (luos_tasks_behind s) j) \<noteq> t"
  shows "MsgAlloc_PullMsg c t out s = Inr (FAILED, out, s)"
proof -
  from assms have "PullMsg_from c t out 0 s = PullMsg_from c t out (unat (luos_tasks_stack_id s)) s"
    by (intro PullMsg_from_skip) auto
  then show ?thesis by (simp add: MsgAlloc_PullMsg_def PullMsg_from_end)
qed

text \<open>
  Claim C7. In a state where no delivery task in use belongs to endpoint \<open>e\<close> and the
  delivery stack is not full, after \<^verbatim>\<open>MsgAlloc_LuosTaskAlloc(e, F)\<close> the next
  \<^verbatim>\<open>MsgAlloc_PullMsg(e)\<close> returns \<^verbatim>\<open>SUCCEED\<close> with the pointer \<open>F\<close> and sets \<^verbatim>\<open>used_msg\<close>
  to \<open>F\<close>, and a second \<^verbatim>\<open>MsgAlloc_PullMsg(e)\<close> returns \<^verbatim>\<open>FAILED\<close>. The stacks are
  within their arrays, the statistics pointer is set, and \<^verbatim>\<open>MAX_MSG_NB\<close> fits the 16-bit
  counters.
\<close>

theorem Alloc_then_PullMsg:
  assumes ok: "stacks_ok c s" and ms: "mem_stat s \<noteq> 0"
    and room: "unat (luos_tasks_stack_id s) < MAX_MSG_NB c" and cap: "MAX_MSG_NB c < 65536"
    and fresh: "\<forall>t\<in>set (valid_luos_tasks s). ll_container_pt t \<noteq> e"
  shows "\<exists>s1 s2. MsgAlloc_LuosTaskAlloc c e F s = Inr s1
           \<and> MsgAlloc_PullMsg c e out s1 = Inr (SUCCEED, F, s2)
           \<and> used_msg s2 = F
           \<and> MsgAlloc_PullMsg c e out2 s2 = Inr (FAILED, out2, s2)"
proof -
  let ?n = "unat (luos_tasks_stack_id s)"
  let ?xs = "luos_tasks s"
  let ?new = "\<lparr>msg_pt = F, ll_container_pt = e\<rparr>"
  from ok have len: "length ?xs = MAX_MSG_NB c" by (simp add: stacks_ok_def)
  have n1: "unat (luos_tasks_stack_id s + 1) = ?n + 1"
    using room cap by (simp add: unat_word_ariths)
  have old: "ll_container_pt (?xs ! j) \<noteq> e" if "j < ?n" for j
  proof -
    from that room len have "?xs ! j \<in> set (valid_luos_tasks s)"
      by (auto simp: valid_luos_tasks_def in_set_conv_nth intro!: exI [of _ j])
    with fresh show ?thesis by blast
  qed
  \<comment> \<open>the allocation\<close>
  obtain s1 where s1: "MsgAlloc_LuosTaskAlloc c e F s = Inr s1"
    "luos_tasks s1 = ?xs[?n := ?new]" "luos_tasks_stack_id s1 = luos_tasks_stack_id s + 1"
    "luos_tasks_behind s1 = luos_tasks_behind s"
    using room len ms
    by (auto simp: MsgAlloc_LuosTaskAlloc_def and_then_def wr_def Let_def)
  \<comment> \<open>the first pull finds the new task at index \<open>n\<close>\<close>
  have skip1: "PullMsg_from c e out 0 s1 = PullMsg_from c e out ?n s1"
  proof (rule PullMsg_from_skip)
    show "\<forall>j. 0 \<le> j \<and> j < ?n \<longrightarrow>
            ll_container_pt (rd (luos_tasks s1) (luos_tasks_behind s1) j) \<noteq> e"
      using old room len by (simp add: s1 rd_def)
  qed (simp_all add: s1 n1)
  have un: "unat (of_nat ?n :: u16) = ?n" by simp
  from slide_left_Inr [of "?n + 1" "?xs[?n := ?new]" "luos_tasks_behind s" ?n] room len
  obtain ys where ys: "slide_left (?xs[?n := ?new]) (luos_tasks_behind s) ?n (?n + 1) = Inr ys"
    "length ys = MAX_MSG_NB c" "\<forall>j<?n. ys ! j = ?xs ! j"
    by auto
  let ?s2 = "s1\<lparr>used_msg := F, luos_tasks := ys, luos_tasks_stack_id := luos_tasks_stack_id s\<rparr>"
  have nz: "luos_tasks_stack_id s + 1 \<noteq> 0"
    using n1 by (metis Suc_eq_plus1 nat.simps(3) unat_0)
  have clr: "MsgAlloc_ClearLuosTask c (of_nat ?n) (s1\<lparr>used_msg := F\<rparr>) = Inr ?s2"
    using ys(1) n1 nz room by (simp add: MsgAlloc_ClearLuosTask_def and_then_def s1)
  have at_n: "PullMsg_from c e out ?n s1 = Inr (SUCCEED, F, ?s2)"
    using clr room len n1 by (subst PullMsg_from.simps) (simp add: s1 rd_def and_then_def)
  \<comment> \<open>the second pull finds nothing\<close>
  have none: "MsgAlloc_PullMsg c e out2 ?s2 = Inr (FAILED, out2, ?s2)"
  proof (rule PullMsg_none)
    show "\<forall>j<unat (luos_tasks_stack_id ?s2).
            ll_container_pt (rd (luos_tasks ?s2) (luos_tasks_behind ?s2) j) \<noteq> e"
      using old ys(2,3) room by (simp add: rd_def)
  qed
  from s1(1) skip1 at_n none show ?thesis
    by (intro exI [of _ s1] exI [of _ ?s2]) (simp add: MsgAlloc_PullMsg_def)
qed

theorem Alloc_then_PullMsg_witness:
  "stacks_ok cfg busy \<and> mem_stat busy \<noteq> 0 \<and> unat (luos_tasks_stack_id busy) < MAX_MSG_NB cfg
   \<and> MAX_MSG_NB cfg < 65536 \<and> map ll_container_pt (valid_luos_tasks busy) = [1, 2]
   \<and> (\<exists>s1 s2. MsgAlloc_LuosTaskAlloc cfg 3 0x20000020 busy = Inr s1
           \<and> MsgAlloc_PullMsg cfg 3 7 s1 = Inr (SUCCEED, 0x20000020, s2)
           \<and> used_msg s2 = 0x20000020
           \<and> MsgAlloc_PullMsg cfg 3 8 s2 = Inr (FAILED, 8, s2))"
proof -
  have h: "stacks_ok cfg busy" "mem_stat busy \<noteq> 0" "unat (luos_tasks_stack_id busy) < MAX_MSG_NB cfg"
    "MAX_MSG_NB cfg < 65536" "map ll_container_pt (valid_luos_tasks busy) = [1, 2]"
    by (simp_all add: concrete_defs)
  have f: "\<forall>t\<in>set (valid_luos_tasks busy). ll_container_pt t \<noteq> 3"
    by (simp add: concrete_defs)
  from Alloc_then_PullMsg [OF h(1,2,3,4) f, of "0x20000020" 7 8] h show ?thesis
    by blast
qed

subsection \<open>A push on a full stack (C2)\<close>

text \<open>
  Claim C2 says that a push on a full stack evicts the oldest entry, slides the others
  left, writes the new entry and increments the drop counter, and that
  \<^verbatim>\<open>MsgAlloc_LuosTaskAlloc\<close> does so on a full delivery stack. The code of
  \<^verbatim>\<open>MsgAlloc_LuosTaskAlloc\<close> evicts and writes, but it does not touch the drop counter:
  on the full stack \<open>full_luos\<close> the oldest task is gone, the new one is last, and the
  counter is still 0.
\<close>

theorem LuosTaskAlloc_full_counts_no_drop:
  "unat (luos_tasks_stack_id full_luos) = MAX_MSG_NB cfg
   \<and> msg_drop_number (stats full_luos (mem_stat full_luos)) = 0
   \<and> (\<exists>s'. MsgAlloc_LuosTaskAlloc cfg 3 0x20000020 full_luos = Inr s'
          \<and> valid_luos_tasks s' = [\<lparr>msg_pt = 0x20000000, ll_container_pt = 2\<rparr>,
                                    \<lparr>msg_pt = 0x20000010, ll_container_pt = 1\<rparr>,
                                    \<lparr>msg_pt = 0x20000010, ll_container_pt = 2\<rparr>,
                                    \<lparr>msg_pt = 0x20000020, ll_container_pt = 3\<rparr>]
          \<and> msg_drop_number (stats s' (mem_stat s')) = 0)"
  by (simp add: full_luos_def concrete_defs MsgAlloc_LuosTaskAlloc_def MsgAlloc_ClearLuosTask_def
                and_then_def wr_def rd_def Let_def slide_left.simps)

subsection \<open>Overflow of the transmit stack (C5)\<close>

text \<open>
  Claim C5 says that when the push of \<^verbatim>\<open>MsgAlloc_SetTxTask\<close> makes
  \<^verbatim>\<open>tx_tasks_stack_id\<close> reach \<^verbatim>\<open>MAX_MSG_NB\<close>, the oldest transmit task is popped, the drop
  counter incremented and no assertion violated. In the code this path calls
  \<^verbatim>\<open>MsgAlloc_PullMsgFromTxTask\<close> with the counter equal to \<^verbatim>\<open>MAX_MSG_NB\<close>, and that
  function asserts that the counter is below \<^verbatim>\<open>MAX_MSG_NB\<close>: with three tasks staged out
  of four, the entry assertion of \<^verbatim>\<open>MsgAlloc_SetTxTask\<close> holds and the call ends in the
  failed assertion.
\<close>

theorem SetTxTask_overflow_asserts:
  "unat (tx_tasks_stack_id tx3) < MAX_MSG_NB cfg
   \<and> unat (tx_tasks_stack_id tx3) + 1 = MAX_MSG_NB cfg
   \<and> current_msg tx3 < buffer_end cfg \<and> current_msg tx3 \<ge> buffer cfg
   \<and> MsgAlloc_SetTxTask cfg 0x20002000 4 tx3 = Inl AssertFailed
   \<and> MsgAlloc_PullMsgFromTxTask cfg (tx3\<lparr>tx_tasks_stack_id := 4\<rparr>) = Inl AssertFailed"
  by (simp add: tx3_def concrete_defs MsgAlloc_SetTxTask_def SetTxTask_place_def
                SetTxTask_at_start_def SetTxTask_rx_to_start_def SetTxTask_rx_shifted_def
                progression_size_def estimated_size_def MsgAlloc_PullMsgFromTxTask_def
                SetTxTask_push_def MsgAlloc_ClearMsgSpace_def MsgAlloc_DoWeHaveSpace_def
                ClearMsgSpace_luos.simps ClearMsgSpace_msg.simps memcpy_def
                and_then_def wr_def rd_def Let_def)

subsection \<open>The drop counter along a run (C8)\<close>

lemma keeps_cursor_same: "keeps_cursor s s' \<Longrightarrow> same_pointers s s'"
  by (simp add: keeps_cursor_def same_pointers_def)

lemma same_pointers_refl [simp]: "same_pointers s s"
  by (simp add: same_pointers_def)

lemma same_pointers_trans: "same_pointers s s1 \<Longrightarrow> same_pointers s1 s2 \<Longrightarrow> same_pointers s s2"
  by (simp add: same_pointers_def)



lemma loop_frame: "MsgAlloc_loop c s = Inr s' \<Longrightarrow> drop_le s s' \<and> same_pointers s s'"
  by (auto simp: MsgAlloc_loop_def drop_le_def same_pointers_def Let_def and_then_def
           split: if_splits sum.splits)







lemma PullMsgToInterpret_frame:
  "MsgAlloc_PullMsgToInterpret c out s = Inr (r, out', s') \<Longrightarrow> drop_le s s' \<and> same_pointers s s'"
  by (auto simp: MsgAlloc_PullMsgToInterpret_def and_then_def Let_def
           split: if_splits sum.splits dest!: ClearMsgTask_frame keeps_cursor_same)

lemma LuosTaskAlloc_frame:
  "MsgAlloc_LuosTaskAlloc c e F s = Inr s' \<Longrightarrow> drop_le s s' \<and> same_pointers s s'"
proof -
  assume "MsgAlloc_LuosTaskAlloc c e F s = Inr s'"
  then obtain s1 where a: "MsgAlloc_ClearLuosTask c 0 s = Inr s1 \<or> s1 = s"
    and b: "\<forall>p. msg_drop_number (stats s' p) = msg_drop_number (stats s1 p)"
           "same_pointers s1 s'"
    unfolding MsgAlloc_LuosTaskAlloc_def Let_def
    by (fastforce simp: and_then_def wr_def same_pointers_def split: sum.splits if_splits)
  from a have "drop_le s s1 \<and> same_pointers s s1"
    using ClearLuosTask_frame [of c 0 s s1] by (auto dest: keeps_cursor_same)
  with b show ?thesis by (auto simp: drop_le_def same_pointers_def)
qed

lemma PullMsg_from_frame:
  "PullMsg_from c t out i s = Inr (r, out', s') \<Longrightarrow> drop_le s s' \<and> same_pointers s s'"
proof (induction c t out i s rule: PullMsg_from.induct)
  case (1 c t out i s)
  show ?case
  proof (cases "i < unat (luos_tasks_stack_id s)")
    case False
    with "1.prems" show ?thesis by (subst (asm) PullMsg_from.simps) simp
  next
    case True
    show ?thesis
    proof (cases "ll_container_pt (rd (luos_tasks s) (luos_tasks_behind s) i) = t")
      case False
      with True "1.prems" have "PullMsg_from c t out (i + 1) s = Inr (r, out', s')"
        by (subst (asm) PullMsg_from.simps) simp
      with "1.IH" [OF True False] show ?thesis by simp
    next
      case m: True
      with True "1.prems" obtain u where
        "MsgAlloc_ClearLuosTask c (of_nat i) (s\<lparr>used_msg := u\<rparr>) = Inr s'"
        by (subst (asm) PullMsg_from.simps) (auto simp: and_then_def Let_def split: sum.splits)
      from ClearLuosTask_frame [OF this] show ?thesis
        by (auto simp: drop_le_def keeps_cursor_def same_pointers_def)
    qed
  qed
qed

lemma PullMsgFromLuosTask_frame:
  "MsgAlloc_PullMsgFromLuosTask c i out s = Inr (r, out', s') \<Longrightarrow> drop_le s s' \<and> same_pointers s s'"
proof -
  assume a: "MsgAlloc_PullMsgFromLuosTask c i out s = Inr (r, out', s')"
  show ?thesis
  proof (cases "i < luos_tasks_stack_id s")
    case False
    with a show ?thesis by (simp add: MsgAlloc_PullMsgFromLuosTask_def)
  next
    case True
    with a obtain u where "MsgAlloc_ClearLuosTask c i (s\<lparr>used_msg := u\<rparr>) = Inr s'"
      by (auto simp: MsgAlloc_PullMsgFromLuosTask_def and_then_def Let_def split: sum.splits)
    from ClearLuosTask_frame [OF this] show ?thesis
      by (auto simp: drop_le_def keeps_cursor_def same_pointers_def)
  qed
qed

lemma ClearMsgFromLuosTasks_from_frame:
  "ClearMsgFromLuosTasks_from c msg i s = Inr s' \<Longrightarrow> drop_le s s' \<and> same_pointers s s'"
proof (induction c msg i s rule: ClearMsgFromLuosTasks_from.induct)
  case (1 c msg i s)
  show ?case
  proof (cases "i < unat (luos_tasks_stack_id s)")
    case False
    with "1.prems" show ?thesis by (subst (asm) ClearMsgFromLuosTasks_from.simps) simp
  next
    case True
    show ?thesis
    proof (cases "msg_pt (rd (luos_tasks s) (luos_tasks_behind s) i) = msg")
      case False
      with True "1.prems" have "ClearMsgFromLuosTasks_from c msg (i + 1) s = Inr s'"
        by (subst (asm) ClearMsgFromLuosTasks_from.simps) simp
      with "1.IH"(2) [OF True False] show ?thesis by simp
    next
      case m: True
      with True "1.prems" obtain s1 where
        s1: "MsgAlloc_ClearLuosTask c (of_nat i) s = Inr s1"
            "ClearMsgFromLuosTasks_from c msg i s1 = Inr s'"
        by (subst (asm) ClearMsgFromLuosTasks_from.simps) (auto simp: and_then_def split: sum.splits)
      from "1.IH"(1) [OF True m s1] ClearLuosTask_frame [OF s1(1)] show ?thesis
        by (blast intro: drop_le_trans same_pointers_trans keeps_cursor_same)
    qed
  qed
qed

lemma PullMsgFromTxTask_frame:
  "MsgAlloc_PullMsgFromTxTask c s = Inr s' \<Longrightarrow> drop_le s s' \<and> same_pointers s s'"
  by (auto simp: MsgAlloc_PullMsgFromTxTask_def and_then_def drop_le_def same_pointers_def wr_def Let_def
           split: if_splits sum.splits)

lemma GetTxTask_frame:
  "MsgAlloc_GetTxTask c d n s = Inr (r, d', n', s') \<Longrightarrow> s' = s"
  by (auto simp: MsgAlloc_GetTxTask_def split: if_splits)





lemma SetTxTask_push_frame:
  "SetTxTask_push c tx sz s = Inr s' \<Longrightarrow> drop_le s s' \<and> same_pointers s s'"
proof -
  assume "SetTxTask_push c tx sz s = Inr s'"
  then obtain xs where
    st: "(if unat (tx_tasks_stack_id s + 1) = MAX_MSG_NB c
          then and_then (MsgAlloc_PullMsgFromTxTask c
                  (s\<lparr>tx_tasks := xs, tx_tasks_stack_id := tx_tasks_stack_id s + 1\<rparr>)) count_drop
          else Inr (s\<lparr>tx_tasks := xs, tx_tasks_stack_id := tx_tasks_stack_id s + 1\<rparr>)) = Inr s'"
    unfolding SetTxTask_push_def Let_def
    by (auto simp: and_then_def split: sum.splits)
  let ?s1 = "s\<lparr>tx_tasks := xs, tx_tasks_stack_id := tx_tasks_stack_id s + 1\<rparr>"
  have a: "drop_le s ?s1 \<and> same_pointers s ?s1" by (simp add: drop_le_def same_pointers_def)
  have "drop_le ?s1 s' \<and> same_pointers ?s1 s'"
  proof (cases "unat (tx_tasks_stack_id s + 1) = MAX_MSG_NB c")
    case True
    with st obtain t where "MsgAlloc_PullMsgFromTxTask c ?s1 = Inr t" "count_drop t = Inr s'"
      by (auto simp: and_then_def split: sum.splits)
    then show ?thesis
      using PullMsgFromTxTask_frame [of c ?s1 t] count_drop_frame [of t s']
      by (blast intro: drop_le_trans same_pointers_trans keeps_cursor_same)
  next
    case False
    with st show ?thesis by auto
  qed
  with a show ?thesis by (blast intro: drop_le_trans same_pointers_trans)
qed




















subsection \<open>The reception cursor along a run (C6)\<close>

lemma addr_plus: "unat (a :: addr) + n < 4294967296 \<Longrightarrow> unat (a + of_nat n) = unat a + n"
proof -
  assume a: "unat a + n < 4294967296"
  then have "n < 4294967296" by simp
  then have n: "unat (of_nat n :: addr) = n" by (simp add: unat_of_nat)
  with a have "unat a + unat (of_nat n :: addr) < 2 ^ LENGTH(32)" by simp
  then show ?thesis using n by (simp add: unat_add_lem [THEN iffD1])
qed

lemma addr_plus_H2:
  "unat (a :: addr) + n + 2 < 4294967296 \<Longrightarrow> unat (a + of_nat n + 2) = unat a + n + 2"
proof -
  assume a: "unat a + n + 2 < 4294967296"
  have "a + of_nat n + 2 = a + of_nat (n + 2)" by simp
  also have "unat \<dots> = unat a + (n + 2)" using a by (intro addr_plus) simp
  finally show ?thesis by simp
qed

lemma addr_plus2: "unat (a :: addr) + 2 < 4294967296 \<Longrightarrow> unat (a + 2) = unat a + 2"
  using addr_plus [of a 2] by simp

lemma addr_plus1: "unat (a :: addr) + 1 < 4294967296 \<Longrightarrow> unat (a + 1) = unat a + 1"
  using addr_plus [of a 1] by simp

lemma addr_plus_ucast:
  "unat (a :: addr) + unat (n :: u16) < 4294967296 \<Longrightarrow> unat (a + ucast n) = unat a + unat n"
proof -
  have "(ucast n :: addr) = of_nat (unat n)" by simp
  then show "unat a + unat n < 4294967296 \<Longrightarrow> unat (a + ucast n) = unat a + unat n"
    using addr_plus [of a "unat n"] by simp
qed

lemma addr_minus2: "2 \<le> unat (a :: addr) \<Longrightarrow> unat (a - 2) = unat a - 2"
proof -
  assume "2 \<le> unat a"
  then have "(2 :: addr) \<le> a" by (simp add: word_le_nat_alt)
  then show ?thesis by (simp add: unat_sub)
qed

lemma unat_u16_less: "unat (n :: u16) < 65536"
  using unsigned_less [of n, where 'a = nat] by simp

lemma unat_buffer_end: "config_ok c \<Longrightarrow> unat (buffer_end c) = unat (buffer c) + MSG_BUFFER_SIZE c"
  unfolding buffer_end_def by (rule addr_plus) (simp add: config_ok_def)

lemma unat_buffer_last:
  "config_ok c \<Longrightarrow> unat (buffer_last c) = unat (buffer c) + MSG_BUFFER_SIZE c - 1"
proof -
  assume c: "config_ok c"
  then have "0 < unat (buffer_end c)" by (simp add: unat_buffer_end config_ok_def)
  then have "buffer_end c \<noteq> 0" by (simp add: unat_gt_0)
  then have "unat (buffer_end c - 1) = unat (buffer_end c) - 1" by (rule unat_minus_one)
  moreover have "buffer_last c = buffer_end c - 1" by (simp add: buffer_last_def buffer_end_def)
  ultimately show ?thesis using c by (simp add: unat_buffer_end)
qed

lemma Init_cursor_inv: "config_ok c \<Longrightarrow> cursor_inv c (MsgAlloc_Init c p s)"
proof -
  assume c: "config_ok c"
  have "unat (buffer c + of_nat (sizeof_header c) + 2) = unat (buffer c) + sizeof_header c + 2"
    using c by (intro addr_plus_H2) (simp add: config_ok_def)
  then show ?thesis
    using c by (simp add: cursor_inv_def MsgAlloc_Init_def Let_def config_ok_def)
qed

lemma same_pointers_inv: "same_pointers s s' \<Longrightarrow> cursor_inv c s \<Longrightarrow> cursor_inv c s'"
  by (simp add: same_pointers_def cursor_inv_def)

lemma SetData_cursor_inv:
  assumes "config_ok c" "cursor_inv c s" "data_ptr s < data_end_estimation s"
  shows "cursor_inv c (MsgAlloc_SetData d s)"
proof -
  from assms(3) have lt: "unat (data_ptr s) < unat (data_end_estimation s)"
    by (simp add: word_less_nat_alt)
  with assms(1,2) have "unat (data_ptr s) + 1 < 4294967296"
    by (simp add: cursor_inv_def config_ok_def)
  then have "unat (data_ptr s + 1) = unat (data_ptr s) + 1" by (rule addr_plus1)
  with assms(2) lt show ?thesis
    by (auto simp: MsgAlloc_SetData_def cursor_inv_def)
qed

lemma InvalidMsg_cursor_inv:
  assumes "config_ok c" "cursor_inv c s" "MsgAlloc_InvalidMsg c s = Inr s'"
  shows "cursor_inv c s'"
proof -
  from assms(3) obtain r s1 where
    a: "MsgAlloc_ClearMsgSpace c (current_msg s) (data_ptr s) s = Inr (r, s1)"
    and b: "current_msg s' = current_msg s1" "data_ptr s' = current_msg s1"
           "data_end_estimation s' = current_msg s1 + of_nat (sizeof_header c) + 2"
    by (auto simp: MsgAlloc_InvalidMsg_def and_then_def Let_def split: sum.splits if_splits)
  from ClearMsgSpace_frame [OF a] have k: "current_msg s1 = current_msg s"
    by (simp add: keeps_cursor_def)
  have "unat (current_msg s + of_nat (sizeof_header c) + 2)
                   = unat (current_msg s) + sizeof_header c + 2"
    using assms(1,2) by (intro addr_plus_H2) (simp add: config_ok_def cursor_inv_def)
  then show ?thesis
    using assms(2) b k by (simp add: cursor_inv_def)
qed


lemma unat_ucast_16_32: "unat (ucast (n :: u16) :: addr) = unat n"
  by (simp add: unsigned_ucast_eq take_bit_nat_eq_self unat_u16_less [THEN less_trans])

lemma unat_ucast_32_16: "unat (w :: addr) < 65536 \<Longrightarrow> unat (ucast w :: u16) = unat w"
  by (simp add: unsigned_ucast_eq take_bit_nat_eq_self)

lemma frame_end_unat:
  "unat a + sizeof_header c + unat n + 2 < 4294967296 \<Longrightarrow>
     unat (frame_end c a n) = unat a + sizeof_header c + unat n + 2"
proof -
  assume a: "unat a + sizeof_header c + unat n + 2 < 4294967296"
  have "frame_end c a n = a + of_nat (sizeof_header c + unat n + 2)"
    by (simp add: frame_end_def)
  also have "unat \<dots> = unat a + (sizeof_header c + unat n + 2)"
    using a by (intro addr_plus) simp
  finally show ?thesis by simp
qed


lemma ValidHeader_cursor_inv:
  assumes c: "config_ok c" and i: "cursor_inv c s"
    and al: "v = 1 \<longrightarrow> unat (data_ptr s) \<le> unat (current_msg s) + sizeof_header c
                     \<and> sizeof_header c + unat n + 2 \<le> MSG_BUFFER_SIZE c"
    and r: "MsgAlloc_ValidHeader c v n s = Inr s'"
  shows "cursor_inv c s'"
proof (cases "v = 1")
  case False
  with r i show ?thesis by (auto simp: MsgAlloc_ValidHeader_def cursor_inv_def)
next
  case True
  with al have dp: "unat (data_ptr s) \<le> unat (current_msg s) + sizeof_header c"
    and fit: "sizeof_header c + unat n + 2 \<le> MSG_BUFFER_SIZE c" by simp_all
  show ?thesis
  proof (cases "frame_end c (current_msg s) n > buffer_last c")
    case w: True
    let ?X = "s\<lparr>copy_task_pointer := current_msg s, current_msg := buffer c,
                    data_ptr := buffer c + of_nat (sizeof_header c),
                    data_end_estimation := frame_end c (buffer c) n\<rparr>"
    from r True have "count_drop (?X\<lparr>used_msg := 0\<rparr>) = Inr s' \<or> s' = ?X"
      unfolding True ValidHeader_wrap [OF w] by (auto split: if_splits)
    then have k: "current_msg s' = buffer c" "data_ptr s' = buffer c + of_nat (sizeof_header c)"
      "data_end_estimation s' = frame_end c (buffer c) n"
      using count_drop_frame [of "?X\<lparr>used_msg := 0\<rparr>" s'] by (auto simp: keeps_cursor_def)
    have "unat (buffer c + of_nat (sizeof_header c)) = unat (buffer c) + sizeof_header c"
      using c by (intro addr_plus) (simp add: config_ok_def; arith)
    moreover have "unat (frame_end c (buffer c) n) = unat (buffer c) + sizeof_header c + unat n + 2"
      using c fit by (intro frame_end_unat) (simp add: config_ok_def; arith)
    ultimately show ?thesis using fit by (simp add: cursor_inv_def k)
  next
    case w: False
    let ?X = "s\<lparr>data_end_estimation := frame_end c (current_msg s) n\<rparr>"
    from r True have "count_drop (?X\<lparr>used_msg := 0\<rparr>) = Inr s' \<or> s' = ?X"
      unfolding True ValidHeader_nowrap [OF w] by (auto split: if_splits)
    then have k: "current_msg s' = current_msg s" "data_ptr s' = data_ptr s"
      "data_end_estimation s' = frame_end c (current_msg s) n"
      using count_drop_frame [of "?X\<lparr>used_msg := 0\<rparr>" s'] by (auto simp: keeps_cursor_def)
    have e: "unat (frame_end c (current_msg s) n) = unat (current_msg s) + sizeof_header c + unat n + 2"
      using c i fit by (intro frame_end_unat) (simp add: config_ok_def cursor_inv_def; arith)
    from w have "unat (frame_end c (current_msg s) n) \<le> unat (buffer c) + MSG_BUFFER_SIZE c - 1"
      using c by (simp add: word_less_nat_alt unat_buffer_last)
    with e i dp show ?thesis by (simp add: cursor_inv_def k)
  qed
qed

lemma EndMsg_cursor_inv:
  assumes c: "config_ok c"
    and lo: "unat (buffer c) + 2 \<le> unat (data_ptr s)"
    and hi: "unat (data_ptr s) \<le> unat (buffer c) + MSG_BUFFER_SIZE c + 65537"
    and r: "MsgAlloc_EndMsg c s = Inr s'"
  shows "cursor_inv c s'"
proof -
  let ?d = "data_ptr s - 2"
  from EndMsg_cursor_eq [OF r] have
    k: "data_ptr s' = EndMsg_cursor c s" "current_msg s' = data_ptr s'"
       "data_end_estimation s' = current_msg s' + of_nat (sizeof_header c) + 2"
    by simp_all
  have d: "unat ?d = unat (data_ptr s) - 2" using lo by (intro addr_minus2) simp
  have "unat ?d + sizeof_header c + 2 < 4294967296"
    using c hi lo d unfolding config_ok_def by (simp; arith)
  then have x: "unat (?d + of_nat (sizeof_header c) + 2) = unat ?d + sizeof_header c + 2"
    by (rule addr_plus_H2)
  have b: "unat (buffer c + of_nat (sizeof_header c) + 2) = unat (buffer c) + sizeof_header c + 2"
    using c by (intro addr_plus_H2) (simp add: config_ok_def; arith)
  show ?thesis
  proof (cases "?d + of_nat (sizeof_header c) + 2 > buffer_last c")
    case True
    then have "EndMsg_cursor c s = buffer c" by (simp add: EndMsg_cursor_def)
    with k b c show ?thesis by (simp add: cursor_inv_def config_ok_def; arith)
  next
    case False
    then have le: "unat ?d + sizeof_header c + 2 \<le> unat (buffer c) + MSG_BUFFER_SIZE c - 1"
      using c x by (simp add: word_less_nat_alt unat_buffer_last)
    have d1: "unat (?d + 1) = unat ?d + 1"
      using c le by (intro addr_plus1) (simp add: config_ok_def; arith)
    have "EndMsg_cursor c s = ?d \<or> EndMsg_cursor c s = ?d + 1"
      using False by (simp add: EndMsg_cursor_def)
    then show ?thesis
    proof
      assume e: "EndMsg_cursor c s = ?d"
      have "unat (?d + of_nat (sizeof_header c) + 2) = unat ?d + sizeof_header c + 2" by (rule x)
      with k e le d lo show ?thesis by (simp add: cursor_inv_def; arith)
    next
      assume e: "EndMsg_cursor c s = ?d + 1"
      have "unat (?d + 1 + of_nat (sizeof_header c) + 2) = unat (?d + 1) + sizeof_header c + 2"
        using c le d1 by (intro addr_plus_H2) (simp add: config_ok_def; arith)
      with k e le d d1 lo show ?thesis by (simp add: cursor_inv_def; arith)
    qed
  qed
qed

lemma SetMessage_cursor_inv:
  assumes c: "config_ok c" and i: "cursor_inv c s" and r: "MsgAlloc_SetMessage c msg s = Inr s'"
  shows "cursor_inv c s'"
proof -
  let ?n = "SetMessage_data_size c msg s"
  let ?s1 = "SetMessage_wrap c ?n s"
  from r obtain r1 s2 s4 where
    st: "MsgAlloc_ClearMsgSpace c (current_msg ?s1) (current_msg ?s1 + ucast ?n) ?s1 = Inr (r1, s2)"
        "MsgAlloc_EndMsg c (s2\<lparr>data_ptr := current_msg s2 + ucast ?n + 2\<rparr>) = Inr s4"
        "same_pointers s4 s'"
    unfolding MsgAlloc_SetMessage_def Let_def
    by (auto simp: and_then_def same_pointers_def split: sum.splits prod.splits)
  have "current_msg ?s1 = buffer c \<or> current_msg ?s1 = current_msg s"
    by (simp add: SetMessage_wrap_def)
  with i have b1: "unat (buffer c) \<le> unat (current_msg ?s1)"
    "unat (current_msg ?s1) \<le> unat (buffer c) + MSG_BUFFER_SIZE c"
    by (auto simp: cursor_inv_def)
  from ClearMsgSpace_frame [OF st(1)] have k: "current_msg s2 = current_msg ?s1"
    by (simp add: keeps_cursor_def)
  have u: "unat (current_msg s2 + ucast ?n) = unat (current_msg s2) + unat ?n"
    using c b1 k unat_u16_less [of ?n] by (intro addr_plus_ucast) (simp add: config_ok_def; arith)
  have u2: "unat (current_msg s2 + ucast ?n + 2) = unat (current_msg s2) + unat ?n + 2"
    using c b1 k u unat_u16_less [of ?n] by (simp add: addr_plus2 config_ok_def)
  have "cursor_inv c s4"
    using c st(2) b1 k u2 unat_u16_less [of ?n]
    by (intro EndMsg_cursor_inv [of c "s2\<lparr>data_ptr := current_msg s2 + ucast ?n + 2\<rparr>"]) simp_all
  with st(3) show ?thesis using same_pointers_inv by blast
qed


lemma progress_sizes:
  assumes "config_ok c" "cursor_inv c s"
  shows "unat (progression_size s) = unat (data_ptr s) - unat (current_msg s)"
    and "unat (estimated_size s) = unat (data_end_estimation s) - unat (current_msg s)"
proof -
  from assms(2) have le: "current_msg s \<le> data_ptr s" "current_msg s \<le> data_end_estimation s"
    by (simp_all add: cursor_inv_def word_le_nat_alt)
  then have u: "unat (data_ptr s - current_msg s) = unat (data_ptr s) - unat (current_msg s)"
    "unat (data_end_estimation s - current_msg s)
       = unat (data_end_estimation s) - unat (current_msg s)"
    by (simp_all add: unat_sub)
  from assms have "unat (data_end_estimation s) \<le> unat (buffer c) + MSG_BUFFER_SIZE c"
    "unat (buffer c) \<le> unat (current_msg s)" "MSG_BUFFER_SIZE c < 65536"
    "unat (data_ptr s) \<le> unat (data_end_estimation s)"
    by (simp_all add: config_ok_def cursor_inv_def)
  then have "unat (data_ptr s) - unat (current_msg s) < 65536"
    "unat (data_end_estimation s) - unat (current_msg s) < 65536"
    by arith+
  with u show "unat (progression_size s) = unat (data_ptr s) - unat (current_msg s)"
    and "unat (estimated_size s) = unat (data_end_estimation s) - unat (current_msg s)"
    by (simp_all add: progression_size_def estimated_size_def unat_ucast_32_16)
qed

lemma cursor_invI:
  "unat (current_msg s) = a \<Longrightarrow> unat (data_ptr s) = b \<Longrightarrow> unat (data_end_estimation s) = d
   \<Longrightarrow> unat (buffer c) \<le> a \<Longrightarrow> a \<le> b \<Longrightarrow> b \<le> d
   \<Longrightarrow> d \<le> unat (buffer c) + MSG_BUFFER_SIZE c \<Longrightarrow> a + sizeof_header c + 2 \<le> d
   \<Longrightarrow> cursor_inv c s"
  by (simp add: cursor_inv_def)

lemma SetTxTask_place_cursor_inv:
  assumes c: "config_ok c" and i: "cursor_inv c s"
    and al: "unat sz + (unat (data_end_estimation s) - unat (current_msg s)) \<le> MSG_BUFFER_SIZE c"
    and r: "SetTxTask_place c sz s = Inr (tx, s')"
  shows "cursor_inv c s'"
proof -
  define B where "B = unat (buffer c)"
  define S where "S = MSG_BUFFER_SIZE c"
  define H where "H = sizeof_header c"
  define z where "z = unat sz"
  define cur where "cur = unat (current_msg s)"
  define P where "P = unat (data_ptr s) - unat (current_msg s)"
  define E where "E = unat (data_end_estimation s) - unat (current_msg s)"
  note pe = progress_sizes [OF c i, folded P_def E_def]
  from i have "P \<le> E \<and> H + 2 \<le> E \<and> E \<le> S \<and> B \<le> cur \<and> cur \<le> B + S"
    unfolding cursor_inv_def P_def E_def B_def S_def H_def cur_def by arith
  then have pe_le: "P \<le> E" "H + 2 \<le> E" "E \<le> S" "B \<le> cur" "cur \<le> B + S" by simp_all
  have small: "B + S + 131072 \<le> 4294967296" "S < 65536" "z < 65536"
    using c unat_u16_less [of sz] by (simp_all add: config_ok_def B_def S_def z_def)
  from al have al': "z + E \<le> S" by (simp add: z_def E_def S_def)
  show ?thesis
  proof (cases "MsgAlloc_DoWeHaveSpace c (current_msg s + ucast sz) = FAILED")
    case True
    let ?cm = "buffer c + ucast sz"
    from r True obtain r1 where
      "MsgAlloc_ClearMsgSpace c (buffer c) (?cm + ucast (estimated_size s))
         (s\<lparr>current_msg := ?cm, data_ptr := ?cm + ucast (progression_size s),
            data_end_estimation := ?cm + ucast (estimated_size s)\<rparr>) = Inr (r1, s')"
      unfolding SetTxTask_place_def SetTxTask_at_start_def Let_def
      by (auto simp: and_then_def split: sum.splits prod.splits)
    from ClearMsgSpace_frame [OF this] have
      k: "current_msg s' = ?cm" "data_ptr s' = ?cm + ucast (progression_size s)"
         "data_end_estimation s' = ?cm + ucast (estimated_size s)"
      by (simp_all add: keeps_cursor_def)
    have "B + z < 4294967296" using small by arith
    then have u1: "unat ?cm = B + z"
      unfolding B_def z_def by (rule addr_plus_ucast)
    have "B + z + P < 4294967296" using small pe_le by arith
    then have u2: "unat (?cm + ucast (progression_size s)) = B + z + P"
      using addr_plus_ucast [of ?cm "progression_size s"] u1 pe(1) by simp
    have "B + z + E < 4294967296" using small pe_le by arith
    then have u3: "unat (?cm + ucast (estimated_size s)) = B + z + E"
      using addr_plus_ucast [of ?cm "estimated_size s"] u1 pe(2) by simp
    show ?thesis
    proof (rule cursor_invI [where a = "B + z" and b = "B + z + P" and d = "B + z + E"])
      show "unat (buffer c) \<le> B + z" by (simp add: B_def)
      show "B + z + E \<le> unat (buffer c) + MSG_BUFFER_SIZE c"
        using al' by (simp add: B_def S_def)
      show "B + z + sizeof_header c + 2 \<le> B + z + E"
        using pe_le(2) by (simp add: H_def)
    qed (use pe_le in \<open>simp_all add: k u1 u2 u3\<close>)
  next
    case False
    then have "unat (current_msg s + ucast sz) \<le> unat (buffer c) + MSG_BUFFER_SIZE c - 1"
      using c by (simp add: MsgAlloc_DoWeHaveSpace_def word_less_nat_alt unat_buffer_last split: if_splits)
    have "cur + z < 4294967296" using small pe_le by arith
    then have v1: "unat (current_msg s + ucast sz) = cur + z"
      unfolding cur_def z_def by (rule addr_plus_ucast)
    from r False obtain s3 where
      s3: "(if MsgAlloc_DoWeHaveSpace c (current_msg s + ucast sz + ucast (estimated_size s)) = FAILED
           then SetTxTask_rx_to_start c sz s
           else SetTxTask_rx_shifted c sz s) = Inr s3"
      and s': "s' = s3\<lparr>data_ptr := current_msg s3 + ucast (progression_size s)\<rparr>"
      unfolding SetTxTask_place_def Let_def
      by (auto simp: and_then_def split: sum.splits if_splits)
    show ?thesis
    proof (cases "MsgAlloc_DoWeHaveSpace c (current_msg s + ucast sz + ucast (estimated_size s)) = FAILED")
      case True
      with s3 obtain r1 s1 r2 where
        "MsgAlloc_ClearMsgSpace c (buffer c) (buffer c + ucast (estimated_size s))
           (s1\<lparr>current_msg := buffer c,
               data_end_estimation := buffer c + ucast (estimated_size s)\<rparr>) = Inr (r2, s3)"
        unfolding SetTxTask_rx_to_start_def Let_def
        by (auto simp: and_then_def split: sum.splits prod.splits)
      from ClearMsgSpace_frame [OF this] have
        k: "current_msg s3 = buffer c"
           "data_end_estimation s3 = buffer c + ucast (estimated_size s)"
        by (simp_all add: keeps_cursor_def)
      have "B + P < 4294967296" using small pe_le by arith
      then have u2: "unat (buffer c + ucast (progression_size s)) = B + P"
        using addr_plus_ucast [of "buffer c" "progression_size s"] pe(1) by (simp add: B_def)
      have "B + E < 4294967296" using small pe_le by arith
      then have u3: "unat (buffer c + ucast (estimated_size s)) = B + E"
        using addr_plus_ucast [of "buffer c" "estimated_size s"] pe(2) by (simp add: B_def)
      show ?thesis
      proof (rule cursor_invI [where a = B and b = "B + P" and d = "B + E"])
        show "B + E \<le> unat (buffer c) + MSG_BUFFER_SIZE c"
          using pe_le(3) by (simp add: B_def S_def)
        show "B + sizeof_header c + 2 \<le> B + E"
          using pe_le(2) by (simp add: H_def)
      qed (use pe_le in \<open>simp_all add: s' k u2 u3 B_def\<close>)
    next
      case nf: False
      let ?cm = "current_msg s + ucast sz"
      from nf s3 obtain r1 where
        "MsgAlloc_ClearMsgSpace c (current_msg s) (?cm + ucast (estimated_size s))
           (s\<lparr>current_msg := ?cm, data_end_estimation := ?cm + ucast (estimated_size s)\<rparr>)
         = Inr (r1, s3)"
        unfolding SetTxTask_rx_shifted_def Let_def
        by (auto simp: and_then_def split: sum.splits prod.splits)
      from ClearMsgSpace_frame [OF this] have
        k: "current_msg s3 = ?cm" "data_end_estimation s3 = ?cm + ucast (estimated_size s)"
        by (simp_all add: keeps_cursor_def)
      have "cur + z + E < 4294967296" using small pe_le by arith
      then have u3: "unat (?cm + ucast (estimated_size s)) = cur + z + E"
        using addr_plus_ucast [of ?cm "estimated_size s"] v1 pe(2) by simp
      have "cur + z + P < 4294967296" using small pe_le by arith
      then have u2: "unat (?cm + ucast (progression_size s)) = cur + z + P"
        using addr_plus_ucast [of ?cm "progression_size s"] v1 pe(1) by simp
      from nf have "unat (?cm + ucast (estimated_size s)) \<le> unat (buffer c) + MSG_BUFFER_SIZE c - 1"
        using c by (simp add: MsgAlloc_DoWeHaveSpace_def word_less_nat_alt unat_buffer_last split: if_splits)
      then have top: "cur + z + E \<le> B + S" unfolding u3 B_def S_def by arith
      show ?thesis
      proof (rule cursor_invI [where a = "cur + z" and b = "cur + z + P" and d = "cur + z + E"])
        show "unat (buffer c) \<le> cur + z" using pe_le(4) by (simp add: B_def)
        show "cur + z + E \<le> unat (buffer c) + MSG_BUFFER_SIZE c"
          using top by (simp add: B_def S_def)
        show "cur + z + sizeof_header c + 2 \<le> cur + z + E"
          using pe_le(2) by (simp add: H_def)
      qed (use pe_le in \<open>simp_all add: s' k v1 u2 u3\<close>)
    qed
  qed
qed

lemma SetTxTask_cursor_inv:
  assumes c: "config_ok c" and i: "cursor_inv c s"
    and al: "unat sz + (unat (data_end_estimation s) - unat (current_msg s)) \<le> MSG_BUFFER_SIZE c"
    and r: "MsgAlloc_SetTxTask c data sz s = Inr s'"
  shows "cursor_inv c s'"
proof -
  from r obtain tx s5 m2 s7 where
    st: "SetTxTask_place c sz s = Inr (tx, s5)"
        "SetTxTask_push c tx sz (s5\<lparr>mem := m2\<rparr>) = Inr s7" "same_pointers s7 s'"
    unfolding MsgAlloc_SetTxTask_def Let_def
    by (auto simp: and_then_def same_pointers_def split: sum.splits prod.splits if_splits)
  have "cursor_inv c s5" using c i al st(1) by (rule SetTxTask_place_cursor_inv)
  then have "cursor_inv c (s5\<lparr>mem := m2\<rparr>)" by (simp add: cursor_inv_def)
  with SetTxTask_push_frame [OF st(2)] have "cursor_inv c s7"
    using same_pointers_inv by blast
  with st(3) show ?thesis using same_pointers_inv by blast
qed

lemma exec_cursor_inv:
  assumes c: "config_ok c" and i: "cursor_inv c s" and al: "allowed c x s"
    and r: "exec c x s = Inr s'"
  shows "cursor_inv c s'"
proof (cases x)
  case (Init p)
  with r c show ?thesis using Init_cursor_inv by auto
next
  case Loop
  with r have "same_pointers s s'" by (auto dest: loop_frame)
  with i show ?thesis using same_pointers_inv by blast
next
  case InvalidMsg
  with r c i show ?thesis using InvalidMsg_cursor_inv by auto
next
  case (ValidHeader v n)
  with r al have "MsgAlloc_ValidHeader c v n s = Inr s'"
    "v = 1 \<longrightarrow> unat (data_ptr s) \<le> unat (current_msg s) + sizeof_header c
                     \<and> sizeof_header c + unat n + 2 \<le> MSG_BUFFER_SIZE c"
    by auto
  with c i show ?thesis using ValidHeader_cursor_inv by blast
next
  case EndMsg
  with r al have e: "MsgAlloc_EndMsg c s = Inr s'"
    and a: "unat (current_msg s) + 2 \<le> unat (data_ptr s)" by auto
  from a i have "unat (buffer c) + 2 \<le> unat (data_ptr s)"
    "unat (data_ptr s) \<le> unat (buffer c) + MSG_BUFFER_SIZE c + 65537"
    unfolding cursor_inv_def by arith+
  with c show ?thesis using e by (rule EndMsg_cursor_inv)
next
  case (SetData d)
  with r al c i show ?thesis using SetData_cursor_inv by auto
next
  case (SetMessage m)
  with r c i show ?thesis using SetMessage_cursor_inv by auto
next
  case GetCurrentMsg
  with r i show ?thesis by auto
next
  case IsEmpty
  with r i show ?thesis by auto
next
  case PullMsgToInterpret
  with r have "same_pointers s s'"
    by (auto simp: and_then_def split: sum.splits dest: PullMsgToInterpret_frame)
  with i show ?thesis using same_pointers_inv by blast
next
  case UsedMsgEnd
  with r i show ?thesis by (auto simp: MsgAlloc_UsedMsgEnd_def cursor_inv_def)
next
  case (LuosTaskAlloc e F)
  with r have "same_pointers s s'" by (auto dest: LuosTaskAlloc_frame)
  with i show ?thesis using same_pointers_inv by blast
next
  case (PullMsg e)
  with r have "same_pointers s s'"
    by (auto simp: and_then_def MsgAlloc_PullMsg_def split: sum.splits dest: PullMsg_from_frame)
  with i show ?thesis using same_pointers_inv by blast
next
  case (PullMsgFromLuosTask k)
  with r have "same_pointers s s'"
    by (auto simp: and_then_def split: sum.splits dest: PullMsgFromLuosTask_frame)
  with i show ?thesis using same_pointers_inv by blast
next
  case (LookAtLuosTask k)
  with r i show ?thesis by (auto simp: MsgAlloc_LookAtLuosTask_def)
next
  case (GetLuosTaskCmd k)
  with r i show ?thesis by (auto simp: MsgAlloc_GetLuosTaskCmd_def)
next
  case (GetLuosTaskSourceId k)
  with r i show ?thesis by (auto simp: MsgAlloc_GetLuosTaskSourceId_def)
next
  case (GetLuosTaskSize k)
  with r i show ?thesis by (auto simp: MsgAlloc_GetLuosTaskSize_def)
next
  case LuosTasksNbr
  with r i show ?thesis by auto
next
  case (ClearMsgFromLuosTasks m)
  with r have "same_pointers s s'"
    by (auto simp: MsgAlloc_ClearMsgFromLuosTasks_def dest: ClearMsgFromLuosTasks_from_frame)
  with i show ?thesis using same_pointers_inv by blast
next
  case (SetTxTask d n)
  with r al c i show ?thesis using SetTxTask_cursor_inv by auto
next
  case PullMsgFromTxTask
  with r have "same_pointers s s'" by (auto dest: PullMsgFromTxTask_frame)
  with i show ?thesis using same_pointers_inv by blast
next
  case GetTxTask
  with r i show ?thesis
    by (auto simp: and_then_def split: sum.splits dest: GetTxTask_frame)
qed

lemma run_cursor_inv:
  "config_ok c \<Longrightarrow> cursor_inv c s \<Longrightarrow> disciplined c xs s \<Longrightarrow> run c xs s = Inr s'
   \<Longrightarrow> cursor_inv c s'"
proof (induction xs arbitrary: s)
  case Nil
  then show ?case by simp
next
  case (Cons x xs)
  from Cons.prems(4) obtain s1 where
    e: "exec c x s = Inr s1" and r: "run c xs s1 = Inr s'"
    by (auto simp: and_then_def split: sum.splits)
  from Cons.prems(3) e have a: "allowed c x s" and d: "disciplined c xs s1" by simp_all
  from Cons.prems(1,2) a e have "cursor_inv c s1" by (rule exec_cursor_inv)
  with Cons.prems(1) show ?case using d r by (rule Cons.IH)
qed

lemma cursor_inv_words:
  assumes c: "config_ok c" and i: "cursor_inv c s"
  shows "buffer c \<le> current_msg s \<and> current_msg s \<le> data_ptr s
         \<and> data_ptr s \<le> data_end_estimation s \<and> data_end_estimation s \<le> buffer_end c"
  using i unat_buffer_end [OF c] by (simp add: cursor_inv_def word_le_nat_alt)

text \<open>
  Claim C6, with the discipline of the callers made explicit. In a configuration whose
  addresses do not wrap, every state reached from \<^verbatim>\<open>MsgAlloc_Init\<close> by a run of calls
  that all return, each call made when \<open>allowed\<close> (bytes written only before the
  estimated end, declared sizes that fit the buffer, a message ended after its CRC, a
  frame to transmit that fits beside the one in reception, at any moment of the
  reception), has its cursor ordered:
  \<^verbatim>\<open>msg_buffer \<le> current_msg \<le> data_ptr \<le> data_end_estimation \<le> msg_buffer + MSG_BUFFER_SIZE\<close>.
\<close>

theorem cursor_ordered:
  assumes "config_ok c"
    and "disciplined c calls (MsgAlloc_Init c p s0)"
    and "run c calls (MsgAlloc_Init c p s0) = Inr s'"
  shows "buffer c \<le> current_msg s' \<and> current_msg s' \<le> data_ptr s'
         \<and> data_ptr s' \<le> data_end_estimation s' \<and> data_end_estimation s' \<le> buffer_end c"
proof -
  from assms(1) have "cursor_inv c (MsgAlloc_Init c p s0)" by (rule Init_cursor_inv)
  with assms have "cursor_inv c s'" using run_cursor_inv by blast
  with assms(1) show ?thesis by (rule cursor_inv_words)
qed

theorem cursor_ordered_witness:
  "config_ok cfg \<and> disciplined cfg reception start
   \<and> (\<exists>s1. run cfg relocation start = Inr s1
          \<and> current_msg s1 = 0x20000004 \<and> data_ptr s1 = 0x2000000C
          \<and> data_end_estimation s1 = 0x2000000F)
   \<and> (\<exists>s'. run cfg reception start = Inr s'
          \<and> current_msg s' = 0x2000000D \<and> data_ptr s' = 0x2000000D
          \<and> data_end_estimation s' = 0x20000016
          \<and> buffer cfg \<le> current_msg s' \<and> current_msg s' \<le> data_ptr s'
          \<and> data_ptr s' \<le> data_end_estimation s' \<and> data_end_estimation s' \<le> buffer_end cfg)"
proof -
  have c: "config_ok cfg" by (simp add: config_ok_def cfg_def)
  have d: "disciplined cfg reception start"
    by (simp add: reception_def relocation_def run_defs)
  have m: "\<exists>s1. run cfg relocation start = Inr s1
          \<and> current_msg s1 = 0x20000004 \<and> data_ptr s1 = 0x2000000C
          \<and> data_end_estimation s1 = 0x2000000F"
    by (simp add: relocation_def run_defs)
  obtain s' where r: "run cfg reception start = Inr s'"
    and v: "current_msg s' = 0x2000000D" "data_ptr s' = 0x2000000D"
           "data_end_estimation s' = 0x20000016"
    by (simp add: reception_def relocation_def run_defs)
  from cursor_ordered [of cfg reception "0x20001000" boot s', folded start_def] c d r
  have "buffer cfg \<le> current_msg s' \<and> current_msg s' \<le> data_ptr s'
        \<and> data_ptr s' \<le> data_end_estimation s' \<and> data_end_estimation s' \<le> buffer_end cfg"
    by blast
  with c d m r v show ?thesis by blast
qed

text \<open>
  Without the discipline the order is lost. \<^verbatim>\<open>MsgAlloc_SetData\<close> tests nothing: after
  \<^verbatim>\<open>MsgAlloc_Init\<close> the estimated end is 9 bytes after the start of the buffer (a header
  of 7 bytes and a CRC), and ten calls of \<^verbatim>\<open>MsgAlloc_SetData\<close> take \<^verbatim>\<open>data_ptr\<close> one
  byte past it.
\<close>

theorem SetData_passes_estimation:
  "\<exists>s'. run cfg [Init 0x20001000, SetData 0, SetData 0, SetData 0, SetData 0, SetData 0,
                   SetData 0, SetData 0, SetData 0, SetData 0, SetData 0] boot = Inr s'
      \<and> data_ptr s' = 0x2000000A \<and> data_end_estimation s' = 0x20000009
      \<and> \<not> data_ptr s' \<le> data_end_estimation s'"
  by (simp add: boot_def cfg_def MsgAlloc_Init_def buffer_last_def buffer_end_def
                MsgAlloc_SetData_def and_then_def Let_def)

end
